theory Spec2Isabelle
  imports Main
begin

text \<open>
  A shallow embedding of \<^verbatim>\<open>functions/upload.js\<close> of Telegraph-Image: the upload handler,
  the call to the Bot API with its retries, the extraction of the file id, the
  notification message and the webhook that answers the button of a notification.
  The repository holds three versions of the file. \<^verbatim>\<open>getFileId\<close>, \<^verbatim>\<open>sendToTelegram\<close>,
  \<^verbatim>\<open>formatFileSize\<close>, the template of the message, the disable flag and the body of the
  upload handler are the same in all three; the router on the content type, the webhook
  with the fixed token \<^verbatim>\<open>copy_link\<close>, the two buttons and \<^verbatim>\<open>getFileIcon\<close> are those of the
  version that has this webhook.
\<close>

section \<open>Strings\<close>

text \<open>
  A JavaScript string is a sequence of UTF-16 code units. It is modelled as the list of
  its code units, each a natural number, so that the literals of the source that lie
  outside ASCII (the labels and icons of the notification message) are written exactly.
  \<open>ascii\<close> embeds an ASCII literal.
\<close>

type_synonym jstring = "nat list"

definition ascii :: "string \<Rightarrow> jstring" where
  "ascii s = map of_char s"

text \<open>\<^verbatim>\<open>s.startsWith(p)\<close>\<close>

fun startsWith :: "jstring \<Rightarrow> jstring \<Rightarrow> bool" where
  "startsWith s [] = True"
| "startsWith [] (p # ps) = False"
| "startsWith (c # cs) (p # ps) = (c = p \<and> startsWith cs ps)"

text \<open>\<^verbatim>\<open>s.includes(p)\<close>: \<open>p\<close> occurs in \<open>s\<close> at some position.\<close>

fun includes_js :: "jstring \<Rightarrow> jstring \<Rightarrow> bool" where
  "includes_js [] p = (p = [])"
| "includes_js (c # cs) p = (startsWith (c # cs) p \<or> includes_js cs p)"

section \<open>Data model\<close>

text \<open>
  Errors are values. \<open>Error m\<close> is \<^verbatim>\<open>new Error(m)\<close> thrown by the source itself;
  \<open>ReduceOfEmptyArray\<close> is the TypeError that \<^verbatim>\<open>Array.prototype.reduce\<close> throws on an
  empty array when no initial value is given; \<open>PropertyOfUndefined\<close> is the TypeError of
  reading a property of \<^verbatim>\<open>undefined\<close>; \<open>Thrown m\<close> is an error raised by the platform
  (body parsing, middleware, key-value store, network) with message \<open>m\<close>.
\<close>

datatype js_error =
    Error jstring
  | ReduceOfEmptyArray
  | PropertyOfUndefined
  | Thrown jstring

text \<open>
  The parsed JSON body of a Bot API reply, with the fields the source reads:
  \<^verbatim>\<open>ok\<close>, \<^verbatim>\<open>description\<close>, \<^verbatim>\<open>result\<close> and, inside the result message, \<^verbatim>\<open>photo\<close>
  (an array of sizes), \<^verbatim>\<open>document\<close>, \<^verbatim>\<open>video\<close>, \<^verbatim>\<open>audio\<close>. An absent field is
  \<open>None\<close>. Every media object carries \<^verbatim>\<open>file_id\<close> and a numeric \<^verbatim>\<open>file_size\<close>.
\<close>

record tg_file =
  file_id :: jstring
  file_size :: int

record tg_message =
  photo :: "tg_file list option"
  document :: "tg_file option"
  video :: "tg_file option"
  audio :: "tg_file option"

record tg_response =
  ok :: bool
  result :: "tg_message option"
  description :: "jstring option"

text \<open>The uploaded \<^verbatim>\<open>File\<close>: \<^verbatim>\<open>name\<close>, \<^verbatim>\<open>type\<close>, \<^verbatim>\<open>size\<close> and its bytes.\<close>

record upload_file =
  fname :: jstring
  ftype :: jstring
  fsize :: nat
  fcontent :: "nat list"

text \<open>
  A \<^verbatim>\<open>FormData\<close> is the ordered list of its entries. \<^verbatim>\<open>get\<close> returns the first value
  stored under a name, or \<^verbatim>\<open>null\<close>; \<^verbatim>\<open>append\<close> adds an entry at the end, and a
  \<^verbatim>\<open>null\<close> value is stored as the string \<^verbatim>\<open>"null"\<close>.
\<close>

datatype form_value = FString jstring | FFile upload_file

type_synonym form_data = "(jstring \<times> form_value) list"

definition fd_get :: "form_data \<Rightarrow> jstring \<Rightarrow> form_value option" where
  "fd_get fd k = map_of fd k"

definition fd_append :: "form_data \<Rightarrow> jstring \<Rightarrow> form_value option \<Rightarrow> form_data" where
  "fd_append fd k v =
     fd @ [(k, case v of None \<Rightarrow> FString (ascii ''null'') | Some x \<Rightarrow> x)]"

text \<open>
  The environment bindings the source reads. \<^verbatim>\<open>img_url\<close> is the optional key-value
  namespace: only whether it is bound matters here.
\<close>

record env =
  TG_Bot_Token :: jstring
  TG_Chat_ID :: jstring
  NOTIFICATION_CHAT_ID :: "jstring option"
  DISABLE_NOTIFICATION :: "jstring option"
  img_url :: bool

text \<open>
  The bodies of the outbound requests: the multipart form of an upload, the JSON of
  \<^verbatim>\<open>sendMessage\<close> (chat id, text and the inline keyboard, a button being its label with
  either a URL or callback data) and the JSON of \<^verbatim>\<open>answerCallbackQuery\<close>.
\<close>

datatype button = UrlButton jstring jstring | CallbackButton jstring jstring

datatype request_body =
    Multipart form_data
  | SendMessageJson jstring jstring "button list"
  | AnswerCallbackJson jstring jstring bool

record request =
  url :: jstring
  body :: request_body

text \<open>
  One \<^verbatim>\<open>fetch\<close> followed by \<^verbatim>\<open>response.json()\<close> either throws (\<open>Throws\<close>: a
  transport failure, or a body that is not JSON) or yields \<^verbatim>\<open>response.ok\<close> with the
  parsed body. The network is a script giving the outcome of the n-th call made so far;
  the state of the world records every request sent, every back-off delay waited (in
  milliseconds) and every key written to the key-value store.
\<close>

datatype fetch_outcome = Throws | Responds bool tg_response

type_synonym network = "nat \<Rightarrow> fetch_outcome"

record world =
  calls :: "request list"
  sleeps :: "nat list"
  kv_puts :: "(jstring \<times> upload_file) list"

definition world0 :: world where
  "world0 = \<lparr>calls = [], sleeps = [], kv_puts = []\<rparr>"

definition fetch :: "network \<Rightarrow> request \<Rightarrow> world \<Rightarrow> fetch_outcome \<times> world" where
  "fetch net rq w = (net (length (calls w)), w\<lparr>calls := calls w @ [rq]\<rparr>)"

definition api_url :: "env \<Rightarrow> jstring \<Rightarrow> jstring" where
  "api_url e endpoint =
     ascii ''https://api.telegram.org/bot'' @ TG_Bot_Token e @ ascii ''/'' @ endpoint"

section \<open>Upload classification\<close>

text \<open>
  The branch of the upload handler that picks, from \<^verbatim>\<open>uploadFile.type\<close>, the form field
  the file is appended under and the endpoint it is sent to.
\<close>

definition chooseUpload :: "jstring \<Rightarrow> jstring \<times> jstring" where
  "chooseUpload t =
     (if startsWith t (ascii ''image/'') then (ascii ''photo'', ascii ''sendPhoto'')
      else if startsWith t (ascii ''audio/'') then (ascii ''audio'', ascii ''sendAudio'')
      else if startsWith t (ascii ''video/'') then (ascii ''video'', ascii ''sendVideo'')
      else (ascii ''document'', ascii ''sendDocument''))"

section \<open>getFileId\<close>

text \<open>
  \<^verbatim>\<open>arr.reduce(f)\<close> with no initial value: a TypeError on the empty array, else the
  fold from the left that starts at the first element.
\<close>

definition reduce :: "('a \<Rightarrow> 'a \<Rightarrow> 'a) \<Rightarrow> 'a list \<Rightarrow> js_error + 'a" where
  "reduce f xs = (case xs of [] \<Rightarrow> Inl ReduceOfEmptyArray | x # rest \<Rightarrow> Inr (foldl f x rest))"

definition larger :: "tg_file \<Rightarrow> tg_file \<Rightarrow> tg_file" where
  "larger prev current = (if file_size prev > file_size current then prev else current)"

text \<open>
  \<open>Inr None\<close> is the \<^verbatim>\<open>null\<close> return. An array, also the empty one, is truthy, so a
  present \<^verbatim>\<open>photo\<close> always takes the first branch. After the guard the result is
  present, so the \<open>None\<close> case of the inner \<open>case\<close> is never taken.
\<close>

definition getFileId :: "tg_response \<Rightarrow> js_error + jstring option" where
  "getFileId response =
     (if \<not> ok response \<or> result response = None then Inr None
      else
        case result response of
          None \<Rightarrow> Inr None
        | Some r \<Rightarrow>
           (case photo r of
              Some ps \<Rightarrow>
                (case reduce larger ps of Inl e \<Rightarrow> Inl e | Inr p \<Rightarrow> Inr (Some (file_id p)))
            | None \<Rightarrow>
                (case document r of Some d \<Rightarrow> Inr (Some (file_id d))
                 | None \<Rightarrow>
                    (case video r of Some v \<Rightarrow> Inr (Some (file_id v))
                     | None \<Rightarrow>
                        (case audio r of Some a \<Rightarrow> Inr (Some (file_id a))
                         | None \<Rightarrow> Inr None)))))"

section \<open>sendToTelegram\<close>

datatype send_result = Success tg_response | Failure jstring

definition MAX_RETRIES :: nat where
  "MAX_RETRIES = 2"

text \<open>\<^verbatim>\<open>responseData.description || 'Upload to Telegram failed'\<close>: the empty string is falsy.\<close>

definition failure_message :: "tg_response \<Rightarrow> jstring" where
  "failure_message d =
     (case description d of
        Some m \<Rightarrow> if m \<noteq> [] then m else ascii ''Upload to Telegram failed''
      | None \<Rightarrow> ascii ''Upload to Telegram failed'')"

definition document_form :: "form_data \<Rightarrow> form_data" where
  "document_form formData =
     fd_append (fd_append [] (ascii ''chat_id'') (fd_get formData (ascii ''chat_id'')))
       (ascii ''document'') (fd_get formData (ascii ''photo''))"

definition sleep :: "nat \<Rightarrow> world \<Rightarrow> world" where
  "sleep ms w = w\<lparr>sleeps := sleeps w @ [ms]\<rparr>"

function sendToTelegram ::
  "network \<Rightarrow> form_data \<Rightarrow> jstring \<Rightarrow> env \<Rightarrow> nat \<Rightarrow> world \<Rightarrow> send_result \<times> world" where
  "sendToTelegram net formData apiEndpoint e retryCount w =
     (case fetch net \<lparr>url = api_url e apiEndpoint, body = Multipart formData\<rparr> w of
        (Responds http_ok responseData, w1) \<Rightarrow>
          if http_ok then (Success responseData, w1)
          else if retryCount < MAX_RETRIES \<and> apiEndpoint = ascii ''sendPhoto'' then
            sendToTelegram net (document_form formData) (ascii ''sendDocument'') e
              (retryCount + 1) w1
          else (Failure (failure_message responseData), w1)
      | (Throws, w1) \<Rightarrow>
          if retryCount < MAX_RETRIES then
            sendToTelegram net formData apiEndpoint e (retryCount + 1)
              (sleep (1000 * (retryCount + 1)) w1)
          else (Failure (ascii ''Network error occurred''), w1))"
  by pat_completeness auto
termination
  by (relation "measure (\<lambda>(net, formData, apiEndpoint, e, retryCount, w). MAX_RETRIES - retryCount)")
     auto

declare sendToTelegram.simps [simp del]

section \<open>Notification\<close>

text \<open>
  White space as \<^verbatim>\<open>String.prototype.trim\<close> and the regular expression class \<^verbatim>\<open>\s\<close>
  take it: tab, line feed, vertical tab, form feed, carriage return, space, no-break
  space, U+1680, U+2000 to U+200A, U+2028, U+2029, U+202F, U+205F, U+3000 and U+FEFF.
\<close>

definition is_space :: "nat \<Rightarrow> bool" where
  "is_space c =
     (c = 9 \<or> c = 10 \<or> c = 11 \<or> c = 12 \<or> c = 13 \<or> c = 32 \<or> c = 160 \<or> c = 5760
      \<or> (8192 \<le> c \<and> c \<le> 8202) \<or> c = 8232 \<or> c = 8233 \<or> c = 8239 \<or> c = 8287
      \<or> c = 12288 \<or> c = 65279)"

definition trim :: "jstring \<Rightarrow> jstring" where
  "trim s = rev (dropWhile is_space (rev (dropWhile is_space s)))"

text \<open>The decimal digits of a non-negative integer, as \<^verbatim>\<open>`${n}`\<close> prints them.\<close>

fun decimal :: "nat \<Rightarrow> jstring" where
  "decimal n = (if n < 10 then [48 + n] else decimal (n div 10) @ [48 + n mod 10])"

declare decimal.simps [simp del]

text \<open>
  \<^verbatim>\<open>(bytes / d).toFixed(1)\<close> for a divisor \<open>d\<close> that is a power of two. A file size is
  an integer below \<open>2^53\<close>; dividing it by a power of two is exact in binary floating
  point, so the quotient is the rational \<open>bytes / d\<close>, and it is below \<open>10^21\<close>, where
  \<^verbatim>\<open>toFixed\<close> would change to exponent notation. \<^verbatim>\<open>toFixed(1)\<close> then prints \<open>n / 10\<close>
  for the integer \<open>n\<close> that brings \<open>n / 10\<close> closest to the quotient, the larger one on
  a tie, that is \<open>n = \<lfloor>10 * bytes / d + 1/2\<rfloor>\<close>.
\<close>

definition toFixed1 :: "nat \<Rightarrow> nat \<Rightarrow> jstring" where
  "toFixed1 bytes d =
     (let n = (20 * bytes + d) div (2 * d)
      in decimal (n div 10) @ ascii ''.'' @ decimal (n mod 10))"

definition formatFileSize :: "nat \<Rightarrow> jstring" where
  "formatFileSize bytes =
     (if bytes < 1024 then decimal bytes @ ascii '' B''
      else if bytes < 1024 * 1024 then toFixed1 bytes 1024 @ ascii '' KB''
      else if bytes < 1024 * 1024 * 1024 then toFixed1 bytes (1024 * 1024) @ ascii '' MB''
      else toFixed1 bytes (1024 * 1024 * 1024) @ ascii '' GB'')"

text \<open>
  The icons are emoji: a surrogate pair each, the picture frame followed by the variation
  selector U+FE0F.
\<close>

definition getFileIcon :: "jstring \<Rightarrow> jstring" where
  "getFileIcon t =
     (if startsWith t (ascii ''image/'') then [55357, 56764, 65039]
      else if startsWith t (ascii ''video/'') then [55356, 57260]
      else if startsWith t (ascii ''audio/'') then [55356, 57269]
      else if includes_js t (ascii ''pdf'') then [55357, 56516]
      else if includes_js t (ascii ''zip'') \<or> includes_js t (ascii ''rar'')
              \<or> includes_js t (ascii ''7z'') then [55357, 56550]
      else [55357, 56526])"

record file_info =
  fileName :: jstring
  fileSize :: nat
  fileUrl :: jstring
  fileType :: jstring
  fileId :: jstring

text \<open>
  The template literal of the message, piece by piece, then trimmed. The pieces outside
  ASCII are given by their code units; \<open>10\<close> is the line feed and \<open>96\<close> the backtick.
\<close>

definition notification_message :: "file_info \<Rightarrow> jstring" where
  "notification_message info =
     trim
      ([10, 55356, 57225] @ ascii '' **'' @ [25991, 20214, 19978, 20256, 25104, 21151, 65281]
         @ ascii ''**'' @ [10, 10]
       @ getFileIcon (fileType info)
       @ ascii '' **'' @ [25991, 20214, 21517, 65306] @ ascii ''** `''
       @ fileName info
       @ [96, 10, 55357, 56527] @ ascii '' **'' @ [22823, 23567, 65306] @ ascii ''** ''
       @ formatFileSize (fileSize info)
       @ [10, 55356, 56724] @ ascii '' **'' @ [25991, 20214] @ ascii ''ID'' @ [65306]
         @ ascii ''** `''
       @ fileId info
       @ [96, 10, 55357, 56599] @ ascii '' **'' @ [35775, 38382, 38142, 25509, 65306]
         @ ascii ''** ['' @ [28857, 20987, 35775, 38382] @ ascii ''](''
       @ fileUrl info
       @ ascii '')'' @ [10, 10, 96, 96, 96, 10]
       @ fileUrl info
       @ [10, 96, 96, 96, 10, 10] @ ascii ''_'' @ [36890, 36807]
         @ ascii '' Telegraph-Image '' @ [19978, 20256] @ ascii ''_'' @ [10, 32, 32, 32, 32])"

text \<open>\<^verbatim>\<open>env.NOTIFICATION_CHAT_ID || env.TG_Chat_ID\<close>\<close>

definition notificationChatId :: "env \<Rightarrow> jstring" where
  "notificationChatId e =
     (case NOTIFICATION_CHAT_ID e of
        Some c \<Rightarrow> if c \<noteq> [] then c else TG_Chat_ID e
      | None \<Rightarrow> TG_Chat_ID e)"

text \<open>
  \<open>sendFileNotification\<close> returns \<open>Inr ()\<close> when it returns normally. With the flag set
  it returns at once. Otherwise it sends one \<^verbatim>\<open>sendMessage\<close> request; whatever the
  outcome, it is only logged, the \<^verbatim>\<open>catch\<close> swallowing a thrown error. The constant
  fields \<^verbatim>\<open>parse_mode\<close> and \<^verbatim>\<open>disable_web_page_preview\<close> of the JSON are left out.
\<close>

definition sendFileNotification ::
  "network \<Rightarrow> env \<Rightarrow> file_info \<Rightarrow> world \<Rightarrow> (js_error + unit) \<times> world" where
  "sendFileNotification net e info w =
     (if DISABLE_NOTIFICATION e = Some (ascii ''true'') then (Inr (), w)
      else
        let message = notification_message info;
            rq = \<lparr>url = api_url e (ascii ''sendMessage''),
                  body = SendMessageJson (notificationChatId e) message
                    [UrlButton ([55357, 56599, 32, 30452, 25509, 35775, 38382]) (fileUrl info),
                     CallbackButton ([55357, 56523, 32, 22797, 21046, 38142, 25509])
                       (ascii ''copy_link'')]\<rparr>
        in case fetch net rq w of
             (Throws, w1) \<Rightarrow> (Inr (), w1)
           | (Responds http_ok r, w1) \<Rightarrow> (Inr (), w1))"

section \<open>The regular expression of the webhook\<close>

text \<open>
  A backtracking matcher for the fragment of regular expressions the source uses: a
  literal character, an optional literal character (greedy) and \<^verbatim>\<open>[^\s]+\<close> (greedy).
  \<open>rx_match as s\<close> lists what is left of \<open>s\<close> after each way of matching \<open>as\<close> at its
  start, in the order a backtracking matcher tries them.
\<close>

datatype atom = Lit nat | OptLit nat | PlusNotSpace

fun rx_match :: "atom list \<Rightarrow> jstring \<Rightarrow> jstring list" where
  "rx_match [] s = [s]"
| "rx_match (Lit c # as) s =
     (case s of [] \<Rightarrow> [] | x # xs \<Rightarrow> if x = c then rx_match as xs else [])"
| "rx_match (OptLit c # as) s =
     (case s of [] \<Rightarrow> [] | x # xs \<Rightarrow> if x = c then rx_match as xs else []) @ rx_match as s"
| "rx_match (PlusNotSpace # as) s =
     concat (map (\<lambda>k. rx_match as (drop k s))
       (rev [1..<Suc (length (takeWhile (\<lambda>c. \<not> is_space c) s))]))"

text \<open>
  A pattern with one capture group: what stands before the group, the group, what stands
  after it. \<open>rx_exec_at\<close> matches at the start of the input and returns the text of the
  group of the first successful way; \<open>rx_search\<close> is \<^verbatim>\<open>s.match(re)\<close> for a pattern
  without the global flag, reduced to group 1 of the leftmost match.
\<close>

record regex =
  rx_before :: "atom list"
  rx_group :: "atom list"
  rx_after :: "atom list"

fun first_some :: "('a \<Rightarrow> 'b option) \<Rightarrow> 'a list \<Rightarrow> 'b option" where
  "first_some f [] = None"
| "first_some f (x # xs) = (case f x of Some y \<Rightarrow> Some y | None \<Rightarrow> first_some f xs)"

definition rx_exec_at :: "regex \<Rightarrow> jstring \<Rightarrow> jstring option" where
  "rx_exec_at re s =
     first_some
       (\<lambda>r1. first_some
          (\<lambda>r2. if rx_match (rx_after re) r2 \<noteq> []
                then Some (take (length r1 - length r2) r1) else None)
          (rx_match (rx_group re) r1))
       (rx_match (rx_before re) s)"

fun rx_search :: "regex \<Rightarrow> jstring \<Rightarrow> jstring option" where
  "rx_search re [] = rx_exec_at re []"
| "rx_search re (c # cs) =
     (case rx_exec_at re (c # cs) of Some u \<Rightarrow> Some u | None \<Rightarrow> rx_search re cs)"

text \<open>\<^verbatim>\<open>/```\n(https?:\/\/[^\s]+)\n```/\<close>\<close>

definition urlRegex :: regex where
  "urlRegex =
     \<lparr>rx_before = map Lit (ascii ''```'' @ [10]),
      rx_group = map Lit (ascii ''http'') @ [OptLit 115] @ map Lit (ascii ''://'') @ [PlusNotSpace],
      rx_after = map Lit ([10] @ ascii ''```'')\<rparr>"

section \<open>The webhook\<close>

text \<open>
  A callback update, with the fields the handler reads. \<^verbatim>\<open>data\<close> and \<^verbatim>\<open>message\<close> of
  a callback query and \<^verbatim>\<open>text\<close> of a message are optional in the Bot API.
\<close>

record tg_text_message =
  msg_text :: "jstring option"

record tg_callback_query =
  cq_id :: jstring
  cq_data :: "jstring option"
  cq_message :: "tg_text_message option"

record tg_update =
  callback_query :: "tg_callback_query option"

datatype response_body = Text jstring | SrcList jstring | ErrorObject js_error

record http_response =
  status :: nat
  content :: response_body

text \<open>
  The body of the \<^verbatim>\<open>try\<close> block. The first argument is the outcome of
  \<^verbatim>\<open>request.json()\<close>. Reading \<^verbatim>\<open>text\<close> of an absent message, or calling \<^verbatim>\<open>match\<close> on
  an absent text, throws a TypeError. The request to \<^verbatim>\<open>answerCallbackQuery\<close> is only
  awaited, so of its outcome only a transport failure matters.
\<close>

definition webhook_try ::
  "network \<Rightarrow> env \<Rightarrow> js_error + tg_update \<Rightarrow> world \<Rightarrow> (js_error + unit) \<times> world" where
  "webhook_try net e parsed w =
     (case parsed of
        Inl err \<Rightarrow> (Inl err, w)
      | Inr update \<Rightarrow>
          (case callback_query update of
             None \<Rightarrow> (Inr (), w)
           | Some callbackQuery \<Rightarrow>
               if cq_data callbackQuery = Some (ascii ''copy_link'') then
                 (case cq_message callbackQuery of
                    None \<Rightarrow> (Inl PropertyOfUndefined, w)
                  | Some m \<Rightarrow>
                      (case msg_text m of
                         None \<Rightarrow> (Inl PropertyOfUndefined, w)
                       | Some messageText \<Rightarrow>
                           let alertText =
                                 (case rx_search urlRegex messageText of
                                    Some urlToCopy \<Rightarrow>
                                      if urlToCopy \<noteq> [] then
                                        [38142, 25509, 24050, 20934, 22791, 22909, 65292, 35831,
                                         31896, 36148, 65281, 10, 10] @ urlToCopy
                                      else [26080, 27861, 25214, 21040, 38142, 25509, 12290]
                                  | None \<Rightarrow> [26080, 27861, 25214, 21040, 38142, 25509, 12290])
                           in case fetch net
                                  \<lparr>url = api_url e (ascii ''answerCallbackQuery''),
                                   body = AnswerCallbackJson (cq_id callbackQuery) alertText True\<rparr>
                                  w of
                                (Throws, w1) \<Rightarrow> (Inl (Thrown (ascii ''fetch failed'')), w1)
                              | (Responds http_ok r, w1) \<Rightarrow> (Inr (), w1)))
               else (Inr (), w)))"

definition handleTelegramWebhook ::
  "network \<Rightarrow> env \<Rightarrow> js_error + tg_update \<Rightarrow> world \<Rightarrow> http_response \<times> world" where
  "handleTelegramWebhook net e parsed w =
     (case webhook_try net e parsed w of
        (Inr u, w1) \<Rightarrow> (\<lparr>status = 200, content = Text (ascii ''OK'')\<rparr>, w1)
      | (Inl err, w1) \<Rightarrow>
          (\<lparr>status = 500, content = Text (ascii ''Error handling webhook'')\<rparr>, w1))"

section \<open>The upload handler\<close>

text \<open>
  What the platform hands to the handler: the \<^verbatim>\<open>content-type\<close> header, the outcome of
  \<^verbatim>\<open>request.clone().formData()\<close> followed by \<^verbatim>\<open>get('file')\<close>, the outcome of
  \<^verbatim>\<open>request.json()\<close>, the origin of the request URL, and the outcomes of the two calls
  whose code is outside this file: the middleware (\<open>Some\<close> error when it throws) and the
  \<^verbatim>\<open>put\<close> of the key-value store.
\<close>

record http_request =
  content_type :: "jstring option"
  form_file :: "js_error + upload_file option"
  json_body :: "js_error + tg_update"
  origin :: jstring
  middleware_throws :: "js_error option"
  kv_put_throws :: "js_error option"

text \<open>\<^verbatim>\<open>fileName.split('.').pop()\<close>: what follows the last dot, or the whole name.\<close>

definition split_pop :: "jstring \<Rightarrow> jstring" where
  "split_pop s = rev (takeWhile (\<lambda>c. c \<noteq> 46) (rev s))"

definition kv_put :: "http_request \<Rightarrow> jstring \<Rightarrow> upload_file \<Rightarrow> world \<Rightarrow> (js_error + unit) \<times> world" where
  "kv_put rq key f w =
     (case kv_put_throws rq of
        Some err \<Rightarrow> (Inl err, w)
      | None \<Rightarrow> (Inr (), w\<lparr>kv_puts := kv_puts w @ [(key, f)]\<rparr>))"

text \<open>
  The body of the \<^verbatim>\<open>try\<close> block of the upload handler; \<open>Inr\<close> carries \<^verbatim>\<open>fileUrl\<close>.
  The local variables that share a name with a field of \<open>file_info\<close> are primed.
  \<open>toLowerCase\<close> is the string method of the language, taken as a parameter.
\<close>

definition upload_try ::
  "(jstring \<Rightarrow> jstring) \<Rightarrow> network \<Rightarrow> env \<Rightarrow> http_request \<Rightarrow> world
     \<Rightarrow> (js_error + jstring) \<times> world" where
  "upload_try toLowerCase net e rq w =
     (case form_file rq of
        Inl err \<Rightarrow> (Inl err, w)
      | Inr formFile \<Rightarrow>
     (case middleware_throws rq of
        Some err \<Rightarrow> (Inl err, w)
      | None \<Rightarrow>
     (case formFile of
        None \<Rightarrow> (Inl (Error (ascii ''No file uploaded'')), w)
      | Some uploadFile \<Rightarrow>
          let fileName' = fname uploadFile;
              fileExtension = toLowerCase (split_pop fileName');
              telegramFormData =
                fd_append (fd_append [] (ascii ''chat_id'') (Some (FString (TG_Chat_ID e))))
                  (fst (chooseUpload (ftype uploadFile))) (Some (FFile uploadFile));
              apiEndpoint = snd (chooseUpload (ftype uploadFile))
          in
     (case sendToTelegram net telegramFormData apiEndpoint e 0 w of
        (Failure msg, w1) \<Rightarrow> (Inl (Error msg), w1)
      | (Success d, w1) \<Rightarrow>
     (case getFileId d of
        Inl err \<Rightarrow> (Inl err, w1)
      | Inr None \<Rightarrow> (Inl (Error (ascii ''Failed to get file ID'')), w1)
      | Inr (Some fileId') \<Rightarrow>
          if fileId' = [] then (Inl (Error (ascii ''Failed to get file ID'')), w1)
          else
            let fileUrl' = ascii ''/file/'' @ fileId' @ ascii ''.'' @ fileExtension;
                fullUrl = origin rq @ fileUrl'
            in
     (case (if img_url e then kv_put rq (fileId' @ ascii ''.'' @ fileExtension) uploadFile w1
            else (Inr (), w1)) of
        (Inl err, w2) \<Rightarrow> (Inl err, w2)
      | (Inr u, w2) \<Rightarrow>
     (case sendFileNotification net e
             \<lparr>fileName = fileName', fileSize = fsize uploadFile, fileUrl = fullUrl,
              fileType = ftype uploadFile, fileId = fileId'\<rparr> w2 of
        (Inl err, w3) \<Rightarrow> (Inl err, w3)
      | (Inr u', w3) \<Rightarrow> (Inr fileUrl', w3))))))))"

definition handleFileUpload ::
  "(jstring \<Rightarrow> jstring) \<Rightarrow> network \<Rightarrow> env \<Rightarrow> http_request \<Rightarrow> world
     \<Rightarrow> http_response \<times> world" where
  "handleFileUpload toLowerCase net e rq w =
     (case upload_try toLowerCase net e rq w of
        (Inr src, w1) \<Rightarrow> (\<lparr>status = 200, content = SrcList src\<rparr>, w1)
      | (Inl err, w1) \<Rightarrow> (\<lparr>status = 500, content = ErrorObject err\<rparr>, w1))"

text \<open>The router on the content type.\<close>

definition onRequestPost ::
  "(jstring \<Rightarrow> jstring) \<Rightarrow> network \<Rightarrow> env \<Rightarrow> http_request \<Rightarrow> world
     \<Rightarrow> http_response \<times> world" where
  "onRequestPost toLowerCase net e rq w =
     (let contentType = (case content_type rq of Some c \<Rightarrow> c | None \<Rightarrow> [])
      in if includes_js contentType (ascii ''multipart/form-data'') then
           handleFileUpload toLowerCase net e rq w
         else if includes_js contentType (ascii ''application/json'') then
           handleTelegramWebhook net e (json_body rq) w
         else
           (\<lparr>status = 400,
              content = Text (ascii ''Unsupported request type. Please send either multipart/form-data for uploads or application/json for webhooks.'')\<rparr>,
            w))"

section \<open>Concrete inputs\<close>

text \<open>The tie of the specification: two photo sizes of 100 bytes, ids \<^verbatim>\<open>a\<close> then \<^verbatim>\<open>b\<close>.\<close>

definition tie_response :: tg_response where
  "tie_response =
     \<lparr>ok = True,
      result = Some \<lparr>photo = Some [\<lparr>file_id = ascii ''a'', file_size = 100\<rparr>,
                                   \<lparr>file_id = ascii ''b'', file_size = 100\<rparr>],
                     document = None, video = None, audio = None\<rparr>,
      description = None\<rparr>"

text \<open>A success-shaped reply whose \<^verbatim>\<open>photo\<close> array is empty.\<close>

definition empty_photo_response :: tg_response where
  "empty_photo_response =
     \<lparr>ok = True,
      result = Some \<lparr>photo = Some [], document = None, video = None, audio = None\<rparr>,
      description = None\<rparr>"

text \<open>A configuration, an uploaded picture and the form the upload handler builds for it.\<close>

definition env0 :: env where
  "env0 = \<lparr>TG_Bot_Token = ascii ''TOKEN'', TG_Chat_ID = ascii ''42'',
            NOTIFICATION_CHAT_ID = None, DISABLE_NOTIFICATION = None, img_url = False\<rparr>"

definition png0 :: upload_file where
  "png0 = \<lparr>fname = ascii ''a.png'', ftype = ascii ''image/png'', fsize = 10,
            fcontent = [137, 80, 78, 71, 13, 10, 26, 10, 0, 0]\<rparr>"

definition photo_form0 :: form_data where
  "photo_form0 = [(ascii ''chat_id'', FString (ascii ''42'')), (ascii ''photo'', FFile png0)]"







text \<open>
  The file of the specification's example, once with the relative URL of the example and
  once with the absolute URL the upload handler passes.
\<close>

definition relative_info :: file_info where
  "relative_info =
     \<lparr>fileName = ascii ''abc.png'', fileSize = 10, fileUrl = ascii ''/file/abc.png'',
      fileType = ascii ''image/png'', fileId = ascii ''abc''\<rparr>"

definition absolute_info :: file_info where
  "absolute_info =
     \<lparr>fileName = ascii ''abc.png'', fileSize = 10,
      fileUrl = ascii ''https://example.com/file/abc.png'',
      fileType = ascii ''image/png'', fileId = ascii ''abc''\<rparr>"

text \<open>
  Callback updates that carry the token of the button with no message, and with a message
  that has no text.
\<close>

definition token_without_message :: tg_update where
  "token_without_message =
     \<lparr>callback_query =
        Some \<lparr>cq_id = ascii ''1'', cq_data = Some (ascii ''copy_link''), cq_message = None\<rparr>\<rparr>"

definition token_without_text :: tg_update where
  "token_without_text =
     \<lparr>callback_query =
        Some \<lparr>cq_id = ascii ''1'', cq_data = Some (ascii ''copy_link''),
              cq_message = Some \<lparr>msg_text = None\<rparr>\<rparr>\<rparr>"

text \<open>A reply to an accepted photo, a network that accepts everything, and an upload request.\<close>

definition sent_photo :: tg_response where
  "sent_photo =
     \<lparr>ok = True,
      result = Some \<lparr>photo = Some [\<lparr>file_id = ascii ''small'', file_size = 5\<rparr>,
                                   \<lparr>file_id = ascii ''big'', file_size = 10\<rparr>],
                     document = None, video = None, audio = None\<rparr>,
      description = None\<rparr>"

definition always_up :: network where
  "always_up n = Responds True sent_photo"

definition upload0 :: http_request where
  "upload0 =
     \<lparr>content_type = Some (ascii ''multipart/form-data; boundary=x''),
      form_file = Inr (Some png0),
      json_body = Inl (Thrown (ascii ''Unexpected token'')),
      origin = ascii ''https://example.com'',
      middleware_throws = None,
      kv_put_throws = None\<rparr>"

section \<open>Auxiliary notions\<close>


definition sent :: "world \<Rightarrow> request \<Rightarrow> world" where
  "sent w rq = w\<lparr>calls := calls w @ [rq]\<rparr>"


text \<open>
  Whether a line feed is directly followed by the letter \<^verbatim>\<open>h\<close>, the first argument telling
  whether a line feed stands just before the text, and whether the text ends on a line
  feed.
\<close>

fun nl_then_h :: "bool \<Rightarrow> jstring \<Rightarrow> bool" where
  "nl_then_h p [] = False"
| "nl_then_h p (x # xs) = ((p \<and> x = 104) \<or> nl_then_h (x = 10) xs)"

fun ends_nl :: "bool \<Rightarrow> jstring \<Rightarrow> bool" where
  "ends_nl p [] = p"
| "ends_nl p (x # xs) = ends_nl (x = 10) xs"

text \<open>
  \<open>decimal_numeral ds n\<close>: the characters \<open>ds\<close> are the decimal numeral of \<open>n\<close>, that is,
  a non-empty string of the digits \<^verbatim>\<open>0\<close> to \<^verbatim>\<open>9\<close> (code units 48 to 57) with no leading
  zero except for the numeral \<^verbatim>\<open>0\<close> itself, whose value in base ten is \<open>n\<close>. It is stated
  on the characters alone, without reference to how the program produces them.
\<close>

abbreviation decimal_numeral :: "jstring \<Rightarrow> nat \<Rightarrow> bool" where
  "decimal_numeral ds n \<equiv>
     ds \<noteq> [] \<and> (\<forall>c\<in>set ds. 48 \<le> c \<and> c \<le> 57) \<and> (hd ds = 48 \<longrightarrow> ds = [48])
     \<and> foldl (\<lambda>a c. 10 * a + (c - 48)) 0 ds = n"

text \<open>
  An upload of a picture whose name holds a space and no dot, and the file information
  the handler passes to the notification for it.
\<close>

definition my_photo :: upload_file where
  "my_photo = \<lparr>fname = ascii ''my photo'', ftype = ascii ''image/png'', fsize = 10,
                fcontent = [137, 80, 78, 71, 13, 10, 26, 10, 0, 0]\<rparr>"

definition upload_my_photo :: http_request where
  "upload_my_photo =
     \<lparr>content_type = Some (ascii ''multipart/form-data; boundary=x''),
      form_file = Inr (Some my_photo),
      json_body = Inl (Thrown (ascii ''Unexpected token'')),
      origin = ascii ''https://example.com'',
      middleware_throws = None,
      kv_put_throws = None\<rparr>"

definition my_photo_info :: file_info where
  "my_photo_info =
     \<lparr>fileName = ascii ''my photo'', fileSize = 10,
      fileUrl = ascii ''https://example.com/file/big.my photo'',
      fileType = ascii ''image/png'', fileId = ascii ''big''\<rparr>"

text \<open>The button of that notification pressed, the text of the message delivered as sent.\<close>

definition my_photo_callback :: tg_update where
  "my_photo_callback =
     \<lparr>callback_query =
        Some \<lparr>cq_id = ascii ''1'', cq_data = Some (ascii ''copy_link''),
              cq_message = Some \<lparr>msg_text = Some (notification_message my_photo_info)\<rparr>\<rparr>\<rparr>"

text \<open>Whether the text holds, at some position, three backticks, a line feed and \<^verbatim>\<open>h\<close>.\<close>

fun has_fence_h :: "jstring \<Rightarrow> bool" where
  "has_fence_h [] = False"
| "has_fence_h (c # cs) =
     ((\<exists>t. c # cs = 96 # 96 # 96 # 10 # 104 # t) \<or> has_fence_h cs)"

section \<open>Properties of the classification\<close>







section \<open>Properties of getFileId\<close>


lemma foldl_larger_last_max:
  "\<exists>i<length (x # rest).
      foldl larger x rest = (x # rest) ! i
      \<and> (\<forall>j<length (x # rest). file_size ((x # rest) ! j) \<le> file_size ((x # rest) ! i))
      \<and> (\<forall>j<length (x # rest). i < j \<longrightarrow> file_size ((x # rest) ! j) < file_size ((x # rest) ! i))"
proof (induction rest rule: rev_induct)
  case Nil
  then show ?case by simp
next
  case (snoc y ys)
  then obtain i where i: "i < length (x # ys)"
    and eq: "foldl larger x ys = (x # ys) ! i"
    and mx: "\<forall>j<length (x # ys). file_size ((x # ys) ! j) \<le> file_size ((x # ys) ! i)"
    and lt: "\<forall>j<length (x # ys). i < j \<longrightarrow> file_size ((x # ys) ! j) < file_size ((x # ys) ! i)"
    by blast
  let ?zs = "x # ys @ [y]"
  have nth_old: "\<And>j. j < length (x # ys) \<Longrightarrow> ?zs ! j = (x # ys) ! j"
    by (metis append_Cons nth_append)
  have nth_new: "?zs ! length (x # ys) = y"
    by (metis append_Cons nth_append_length)
  have len: "length ?zs = Suc (length (x # ys))" by simp
  show ?case
  proof (cases "file_size ((x # ys) ! i) > file_size y")
    case True
    have "foldl larger x (ys @ [y]) = ?zs ! i"
      using True eq i nth_old by (simp add: larger_def)
    moreover have "\<forall>j<length ?zs. file_size (?zs ! j) \<le> file_size (?zs ! i)"
      using True mx i nth_old nth_new unfolding len
      by (metis less_Suc_eq less_imp_le)
    moreover have "\<forall>j<length ?zs. i < j \<longrightarrow> file_size (?zs ! j) < file_size (?zs ! i)"
      using True lt i nth_old nth_new unfolding len
      by (metis less_Suc_eq)
    ultimately show ?thesis using i len by (metis less_Suc_eq)
  next
    case False
    let ?k = "length (x # ys)"
    have "foldl larger x (ys @ [y]) = ?zs ! ?k"
      using False eq nth_new by (simp add: larger_def)
    moreover have "\<forall>j<length ?zs. file_size (?zs ! j) \<le> file_size (?zs ! ?k)"
      using False mx nth_old nth_new unfolding len
      by (metis less_Suc_eq not_less order.trans order_refl)
    moreover have "\<forall>j<length ?zs. ?k < j \<longrightarrow> file_size (?zs ! j) < file_size (?zs ! ?k)"
      unfolding len by auto
    ultimately show ?thesis unfolding len by (metis lessI)
  qed
qed


text \<open>
  Claim C1, as stated, fails: on the tie of two sizes of 100 bytes the code returns
  \<^verbatim>\<open>b\<close>, the later entry, not \<^verbatim>\<open>a\<close>. The reducer keeps \<^verbatim>\<open>prev\<close> only when it is
  strictly larger, so an equal \<^verbatim>\<open>current\<close> replaces it.
\<close>

theorem getFileId_tie_counterexample:
  "getFileId tie_response = Inr (Some (ascii ''b''))
   \<and> getFileId tie_response \<noteq> Inr (Some (ascii ''a''))"
  by (simp add: getFileId_def tie_response_def reduce_def larger_def ascii_def)

text \<open>
  Claim C1, amended. Applied to a successful reply whose result holds a non-empty photo
  array, \<open>getFileId\<close> returns the file id of an entry of largest file size, and among
  entries of that size the last one in the array: every later entry is strictly smaller.
\<close>

theorem getFileId_photo_last_largest:
  assumes "ok r" and "result r = Some m" and "photo m = Some ps" and "ps \<noteq> []"
  shows "\<exists>i<length ps.
           getFileId r = Inr (Some (file_id (ps ! i)))
           \<and> (\<forall>j<length ps. file_size (ps ! j) \<le> file_size (ps ! i))
           \<and> (\<forall>j<length ps. i < j \<longrightarrow> file_size (ps ! j) < file_size (ps ! i))"
proof -
  from assms(4) obtain x rest where ps: "ps = x # rest" by (cases ps) auto
  have g: "getFileId r = Inr (Some (file_id (foldl larger x rest)))"
    using assms(1-3) ps by (simp add: getFileId_def reduce_def)
  from foldl_larger_last_max [of x rest] show ?thesis
    unfolding g ps by metis
qed

theorem getFileId_photo_last_largest_witness:
  "getFileId tie_response = Inr (Some (ascii ''b''))"
proof -
  let ?ps = "[\<lparr>file_id = ascii ''a'', file_size = 100\<rparr>, \<lparr>file_id = ascii ''b'', file_size = 100\<rparr>]"
  let ?m = "\<lparr>photo = Some ?ps, document = None, video = None, audio = None\<rparr>"
  have h: "ok tie_response" "result tie_response = Some ?m" "photo ?m = Some ?ps" "?ps \<noteq> []"
    by (simp_all add: tie_response_def)
  from getFileId_photo_last_largest [OF h] obtain i where i: "i < length ?ps"
    and g: "getFileId tie_response = Inr (Some (file_id (?ps ! i)))"
    and lt: "\<forall>j<length ?ps. i < j \<longrightarrow> file_size (?ps ! j) < file_size (?ps ! i)"
    by blast
  have "i = 0 \<or> i = 1" using i by auto
  moreover have "i \<noteq> 0"
  proof
    assume "i = 0"
    with lt [rule_format, of 1] show False by simp
  qed
  ultimately have "i = 1" by simp
  then show ?thesis using g by simp
qed

text \<open>
  Claim C10. On a reply with \<^verbatim>\<open>ok\<close> true and a result whose \<^verbatim>\<open>photo\<close> is the empty array,
  \<open>getFileId\<close> throws the TypeError of reducing an empty array instead of returning
  \<^verbatim>\<open>null\<close>; it returns a value (a file id or \<^verbatim>\<open>null\<close>) on exactly the other replies.
\<close>

theorem getFileId_throws_iff_empty_photo:
  "(getFileId r = Inl ReduceOfEmptyArray)
     = (ok r \<and> (\<exists>m. result r = Some m \<and> photo m = Some []))
   \<and> (\<exists>v. getFileId r = Inr v)
     = (\<not> (ok r \<and> (\<exists>m. result r = Some m \<and> photo m = Some [])))"
  by (auto simp: getFileId_def reduce_def split: option.splits list.splits)

theorem getFileId_throws_iff_empty_photo_witness:
  "getFileId empty_photo_response = Inl ReduceOfEmptyArray
   \<and> (\<exists>v. getFileId tie_response = Inr v)"
proof -
  have e: "ok empty_photo_response
           \<and> (\<exists>m. result empty_photo_response = Some m \<and> photo m = Some [])"
    by (simp add: empty_photo_response_def)
  have t: "\<not> (ok tie_response \<and> (\<exists>m. result tie_response = Some m \<and> photo m = Some []))"
    by (simp add: tie_response_def)
  have "getFileId empty_photo_response = Inl ReduceOfEmptyArray"
    using getFileId_throws_iff_empty_photo [of empty_photo_response] e
    by blast
  moreover have "\<exists>v. getFileId tie_response = Inr v"
    using getFileId_throws_iff_empty_photo [of tie_response] t
    by blast
  ultimately show ?thesis by simp
qed

section \<open>Properties of sendToTelegram\<close>

lemma sendToTelegram_unfold:
  "sendToTelegram net fd ep e rc w =
     (let w1 = w\<lparr>calls := calls w @ [\<lparr>url = api_url e ep, body = Multipart fd\<rparr>]\<rparr> in
      case net (length (calls w)) of
        Responds h d \<Rightarrow>
          if h then (Success d, w1)
          else if rc < MAX_RETRIES \<and> ep = ascii ''sendPhoto'' then
            sendToTelegram net (document_form fd) (ascii ''sendDocument'') e (rc + 1) w1
          else (Failure (failure_message d), w1)
      | Throws \<Rightarrow>
          if rc < MAX_RETRIES then
            sendToTelegram net fd ep e (rc + 1) (sleep (1000 * (rc + 1)) w1)
          else (Failure (ascii ''Network error occurred''), w1))"
  by (subst sendToTelegram.simps) (simp add: fetch_def Let_def)

lemma sendToTelegram_calls_bound:
  "length (calls w) < length (calls (snd (sendToTelegram net fd ep e rc w)))
   \<and> length (calls (snd (sendToTelegram net fd ep e rc w)))
       \<le> length (calls w) + 1 + (MAX_RETRIES - rc)"
proof (induction "MAX_RETRIES - rc" arbitrary: rc w fd ep)
  case 0
  then have "\<not> rc < MAX_RETRIES" by simp
  then show ?case
    by (subst (1 2) sendToTelegram_unfold)
       (simp add: Let_def split: fetch_outcome.split)
next
  case (Suc k)
  then have k: "k = MAX_RETRIES - (rc + 1)" and lt: "rc < MAX_RETRIES" by simp_all
  note ih = Suc.hyps(1) [OF k]
  show ?case
  proof (cases "net (length (calls w))")
    case Throws
    show ?thesis
      using ih [of "sleep (1000 * (rc + 1)) (w\<lparr>calls := calls w @ [\<lparr>url = api_url e ep, body = Multipart fd\<rparr>]\<rparr>)" fd ep]
        Throws lt
      by (subst (1 2) sendToTelegram_unfold) (auto simp add: Let_def sleep_def)
  next
    case (Responds h d)
    show ?thesis
      using ih [of "w\<lparr>calls := calls w @ [\<lparr>url = api_url e ep, body = Multipart fd\<rparr>]\<rparr>"
                   "document_form fd" "ascii ''sendDocument''"]
        Responds lt
      by (subst (1 2) sendToTelegram_unfold) (auto simp add: Let_def)
  qed
qed

lemma sendToTelegram_fails:
  assumes "\<forall>n d. net n \<noteq> Responds True d"
  shows "\<exists>m. fst (sendToTelegram net fd ep e rc w) = Failure m"
proof (induction "MAX_RETRIES - rc" arbitrary: rc w fd ep)
  case 0
  then have "\<not> rc < MAX_RETRIES" by simp
  then show ?case using assms
    by (subst sendToTelegram_unfold)
       (auto simp add: Let_def split: fetch_outcome.split)
next
  case (Suc k)
  then have k: "k = MAX_RETRIES - (rc + 1)" and lt: "rc < MAX_RETRIES" by simp_all
  note ih = Suc.hyps(1) [OF k]
  show ?case
  proof (cases "net (length (calls w))")
    case Throws
    show ?thesis
      using ih [of fd ep "sleep (1000 * (rc + 1)) (w\<lparr>calls := calls w @ [\<lparr>url = api_url e ep, body = Multipart fd\<rparr>]\<rparr>)"]
        Throws lt
      by (subst sendToTelegram_unfold) (simp add: Let_def)
  next
    case (Responds h d)
    then have "\<not> h" using assms by metis
    then show ?thesis
      using ih [of "document_form fd" "ascii ''sendDocument''" "w\<lparr>calls := calls w @ [\<lparr>url = api_url e ep, body = Multipart fd\<rparr>]\<rparr>"]
        Responds lt
      by (subst sendToTelegram_unfold) (auto simp add: Let_def)
  qed
qed

text \<open>
  Claim C3. \<open>sendToTelegram\<close> is a total function (its recursion ends because the retry
  count grows towards \<open>MAX_RETRIES = 2\<close>). When every attempt answers non-2xx or throws,
  the call started with retry count 0 returns a \<open>Failure\<close> after at least one and at most
  \<open>1 + MAX_RETRIES = 3\<close> requests.
\<close>

theorem sendToTelegram_retry_bound:
  assumes "\<forall>n d. net n \<noteq> Responds True d"
  shows "\<exists>m w'. sendToTelegram net fd ep e 0 world0 = (Failure m, w')
           \<and> 1 \<le> length (calls w') \<and> length (calls w') \<le> 1 + MAX_RETRIES"
proof -
  obtain r w' where R: "sendToTelegram net fd ep e 0 world0 = (r, w')"
    by (cases "sendToTelegram net fd ep e 0 world0")
  from sendToTelegram_fails [OF assms, of fd ep e 0 world0] R
  obtain m where "r = Failure m" by auto
  moreover from sendToTelegram_calls_bound [of world0 net fd ep e 0] R
  have "1 \<le> length (calls w') \<and> length (calls w') \<le> 1 + MAX_RETRIES"
    by (auto simp add: world0_def Suc_le_eq)
  ultimately show ?thesis using R by simp
qed

theorem sendToTelegram_retry_bound_witness:
  "(\<forall>n d. (\<lambda>k. Throws) n \<noteq> Responds True d)
   \<and> (\<exists>m w'. sendToTelegram (\<lambda>k. Throws) photo_form0 (ascii ''sendPhoto'') env0 0 world0
                 = (Failure m, w')
          \<and> 1 \<le> length (calls w') \<and> length (calls w') \<le> 1 + MAX_RETRIES)"
proof -
  have h: "\<forall>n d. (\<lambda>k::nat. Throws) n \<noteq> Responds True d" by simp
  from sendToTelegram_retry_bound [OF h, of photo_form0 "ascii ''sendPhoto''" env0] h
  show ?thesis by blast
qed




lemma calls_sent [simp]: "calls (sent w rq) = calls w @ [rq]"
  by (simp add: sent_def)

lemma calls_sleep [simp]: "calls (sleep ms w) = calls w"
  by (simp add: sleep_def)









section \<open>Properties of the size format\<close>

lemma decimal_digit: "n < 10 \<Longrightarrow> decimal n = [48 + n]"
  by (subst decimal.simps) simp

lemma decimal_value: "foldl (\<lambda>a c. 10 * a + (c - 48)) 0 (decimal n) = n"
proof (induction n rule: decimal.induct)
  case (1 n)
  show ?case
  proof (cases "n < 10")
    case True
    then show ?thesis by (subst decimal.simps) simp
  next
    case False
    from "1.IH" [OF False] show ?thesis using False by (subst decimal.simps) simp
  qed
qed

lemma toFixed1_rounds:
  assumes "0 < d"
  shows "\<exists>n. toFixed1 b d = decimal (n div 10) @ ascii ''.'' @ [48 + n mod 10]
             \<and> 2 * d * n \<le> 20 * b + d \<and> 20 * b + d < 2 * d * n + 2 * d"
proof -
  let ?n = "(20 * b + d) div (2 * d)"
  have "toFixed1 b d = decimal (?n div 10) @ ascii ''.'' @ [48 + ?n mod 10]"
    by (simp add: toFixed1_def Let_def decimal_digit)
  moreover have "2 * d * ?n \<le> 20 * b + d"
    by simp
  moreover have "20 * b + d < 2 * d * ?n + 2 * d"
  proof -
    have "0 < 2 * d" using assms by simp
    then have "(20 * b + d) mod (2 * d) < 2 * d" by (rule mod_less_divisor)
    moreover have "20 * b + d = 2 * d * ?n + (20 * b + d) mod (2 * d)"
      by (simp only: mult_div_mod_eq)
    ultimately show ?thesis by linarith
  qed
  ultimately show ?thesis by blast
qed

lemma decimal_set: "c \<in> set (decimal n) \<Longrightarrow> 48 \<le> c \<and> c \<le> 57"
proof (induction n arbitrary: c rule: decimal.induct)
  case (1 n)
  show ?case
  proof (cases "n < 10")
    case True
    with "1.prems" show ?thesis by (subst (asm) decimal.simps) simp
  next
    case False
    from "1.prems" have "c \<in> set (decimal (n div 10)) \<or> c = 48 + n mod 10"
      using False by (subst (asm) decimal.simps) auto
    then show ?thesis
    proof
      assume "c \<in> set (decimal (n div 10))"
      from "1.IH" [OF False this] show ?thesis .
    next
      assume "c = 48 + n mod 10"
      moreover have "n mod 10 < 10" by simp
      ultimately show ?thesis by linarith
    qed
  qed
qed

lemma decimal_nonempty: "decimal n \<noteq> []"
  by (subst decimal.simps) simp

lemma decimal_hd: "n \<noteq> 0 \<Longrightarrow> hd (decimal n) \<noteq> 48"
proof (induction n rule: decimal.induct)
  case (1 n)
  show ?case
  proof (cases "n < 10")
    case True
    with "1.prems" show ?thesis by (subst decimal.simps) simp
  next
    case False
    then have "n div 10 \<noteq> 0" by simp
    from "1.IH" [OF False this] show ?thesis
      using False decimal_nonempty [of "n div 10"] by (subst decimal.simps) simp
  qed
qed

lemma decimal_is_numeral: "decimal_numeral (decimal n) n"
proof -
  have "hd (decimal n) = 48 \<longrightarrow> decimal n = [48]"
  proof
    assume "hd (decimal n) = 48"
    then have "n = 0" using decimal_hd [of n] by blast
    then show "decimal n = [48]" by (simp add: decimal_digit)
  qed
  moreover have "\<forall>c\<in>set (decimal n). 48 \<le> c \<and> c \<le> 57"
    using decimal_set [of _ n] by blast
  ultimately show ?thesis
    using decimal_nonempty [of n] decimal_value [of n] by simp
qed

lemma digits_value_zero:
  "foldl (\<lambda>a c. 10 * a + (c - 48)) a ds = 0 \<Longrightarrow> a = 0 \<and> (\<forall>c\<in>set ds. c - 48 = (0::nat))"
proof (induction ds arbitrary: a)
  case Nil
  then show ?case by simp
next
  case (Cons x xs)
  from Cons.prems have "foldl (\<lambda>a c. 10 * a + (c - 48)) (10 * a + (x - 48)) xs = 0" by simp
  from Cons.IH [OF this] have "10 * a + (x - 48) = 0" and "\<forall>c\<in>set xs. c - 48 = 0" by simp_all
  then show ?case by simp
qed

lemma numeral_is_decimal:
  assumes "decimal_numeral ds n"
  shows "ds = decimal n"
  using assms
proof (induction n arbitrary: ds rule: decimal.induct)
  case (1 n)
  let ?v = "foldl (\<lambda>a c. 10 * a + (c - 48)) 0"
  from "1.prems" have ne: "ds \<noteq> []" and dg: "\<forall>c\<in>set ds. 48 \<le> c \<and> c \<le> 57"
    and lz: "hd ds = 48 \<longrightarrow> ds = [48]" and v: "?v ds = n" by blast+
  from ne obtain ds' d where ds: "ds = ds' @ [d]" by (cases ds rule: rev_cases) auto
  from dg ds have d: "48 \<le> d" "d \<le> 57" by simp_all
  from v ds have n: "n = 10 * ?v ds' + (d - 48)" by simp
  from d have dm: "d - 48 < 10" by simp
  from n dm have q: "n div 10 = ?v ds'" and r: "n mod 10 = d - 48" by simp_all
  from r d have d': "d = 48 + n mod 10" by simp
  show ?case
  proof (cases "n < 10")
    case True
    then have "?v ds' = 0" using q by simp
    have "ds' = []"
    proof (rule ccontr)
      assume nonempty: "ds' \<noteq> []"
      from digits_value_zero [OF \<open>?v ds' = 0\<close>] have "\<forall>c\<in>set ds'. c - 48 = 0" by blast
      moreover have "hd ds' \<in> set ds'" using nonempty by simp
      moreover have "48 \<le> hd ds'" using dg ds nonempty by simp
      ultimately have "hd ds' - 48 = 0 \<and> 48 \<le> hd ds'" by simp
      then have "hd ds' = 48" by arith
      then have "hd ds = 48" using ds nonempty by simp
      with lz have "ds = [48]" by blast
      with ds nonempty show False by (cases ds') auto
    qed
    then show ?thesis using ds d' True by (subst decimal.simps [of n]) simp
  next
    case False
    then have pos: "?v ds' \<noteq> 0" using q by simp
    then have nonempty: "ds' \<noteq> []" by auto
    have "hd ds' \<noteq> 48"
    proof
      assume "hd ds' = 48"
      then have "hd ds = 48" using ds nonempty by simp
      with lz have "ds = [48]" by blast
      with ds nonempty show False by (cases ds') auto
    qed
    then have "decimal_numeral ds' (n div 10)" using nonempty dg ds q by simp
    from "1.IH" [OF False this] show ?thesis
      using ds d' False by (subst decimal.simps [of n]) simp
  qed
qed

lemma toFixed1_numeral:
  assumes "0 < d"
  shows "\<exists>n ds. toFixed1 b d = ds @ ascii ''.'' @ [48 + n mod 10]
             \<and> decimal_numeral ds (n div 10)
             \<and> 2 * d * n \<le> 20 * b + d \<and> 20 * b + d < 2 * d * n + 2 * d"
proof -
  from toFixed1_rounds [OF assms, of b] obtain n
    where "toFixed1 b d = decimal (n div 10) @ ascii ''.'' @ [48 + n mod 10]"
      and "2 * d * n \<le> 20 * b + d" and "20 * b + d < 2 * d * n + 2 * d" by blast
  with decimal_is_numeral [of "n div 10"] show ?thesis by blast
qed

text \<open>
  Claim C6. \<open>formatFileSize\<close> uses the binary thresholds 1024, 1048576 and 1073741824
  and one decimal place. Below 1024 it prints the decimal numeral of the count and
  \<^verbatim>\<open> B\<close>. From there below 1048576 it prints the decimal numeral of \<open>n div 10\<close>, a
  point, the digit \<open>n mod 10\<close> and \<^verbatim>\<open> KB\<close>, where \<open>n / 10\<close> is the multiple of a tenth
  nearest to \<open>b / 1024\<close> (the upper one on a tie); likewise \<^verbatim>\<open> MB\<close> below 1073741824 and
  \<^verbatim>\<open> GB\<close> from there on. The printed digits are described on the characters themselves:
  digits only, no leading zero, and the value they denote in base ten. In particular 0,
  1024, 1048576 and 1073741824 are printed as \<^verbatim>\<open>0 B\<close>, \<^verbatim>\<open>1.0 KB\<close>, \<^verbatim>\<open>1.0 MB\<close> and
  \<^verbatim>\<open>1.0 GB\<close>, and 1000 and 512000 as \<^verbatim>\<open>1000 B\<close> and \<^verbatim>\<open>500.0 KB\<close>.
\<close>

theorem formatFileSize_binary_units:
  "(b < 1024 \<longrightarrow>
        (\<exists>ds. formatFileSize b = ds @ ascii '' B'' \<and> decimal_numeral ds b))
   \<and> (1024 \<le> b \<and> b < 1048576 \<longrightarrow>
        (\<exists>n ds. formatFileSize b = ds @ ascii ''.'' @ [48 + n mod 10] @ ascii '' KB''
             \<and> decimal_numeral ds (n div 10)
             \<and> 2048 * n \<le> 20 * b + 1024 \<and> 20 * b + 1024 < 2048 * n + 2048))
   \<and> (1048576 \<le> b \<and> b < 1073741824 \<longrightarrow>
        (\<exists>n ds. formatFileSize b = ds @ ascii ''.'' @ [48 + n mod 10] @ ascii '' MB''
             \<and> decimal_numeral ds (n div 10)
             \<and> 2097152 * n \<le> 20 * b + 1048576 \<and> 20 * b + 1048576 < 2097152 * n + 2097152))
   \<and> (1073741824 \<le> b \<longrightarrow>
        (\<exists>n ds. formatFileSize b = ds @ ascii ''.'' @ [48 + n mod 10] @ ascii '' GB''
             \<and> decimal_numeral ds (n div 10)
             \<and> 2147483648 * n \<le> 20 * b + 1073741824
             \<and> 20 * b + 1073741824 < 2147483648 * n + 2147483648))
   \<and> formatFileSize 0 = ascii ''0 B''
   \<and> formatFileSize 1024 = ascii ''1.0 KB''
   \<and> formatFileSize 1048576 = ascii ''1.0 MB''
   \<and> formatFileSize 1073741824 = ascii ''1.0 GB''
   \<and> formatFileSize 1000 = ascii ''1000 B''
   \<and> formatFileSize 512000 = ascii ''500.0 KB''"
proof -
  have B: "b < 1024 \<longrightarrow>
        (\<exists>ds. formatFileSize b = ds @ ascii '' B'' \<and> decimal_numeral ds b)"
  proof
    assume "b < 1024"
    then have "formatFileSize b = decimal b @ ascii '' B''" by (simp add: formatFileSize_def)
    with decimal_is_numeral [of b] show "\<exists>ds. formatFileSize b = ds @ ascii '' B'' \<and> decimal_numeral ds b"
      by blast
  qed
  have K: "1024 \<le> b \<and> b < 1048576 \<longrightarrow>
        (\<exists>n ds. formatFileSize b = ds @ ascii ''.'' @ [48 + n mod 10] @ ascii '' KB''
             \<and> decimal_numeral ds (n div 10)
             \<and> 2048 * n \<le> 20 * b + 1024 \<and> 20 * b + 1024 < 2048 * n + 2048)"
  proof
    assume r: "1024 \<le> b \<and> b < 1048576"
    then have f: "formatFileSize b = toFixed1 b 1024 @ ascii '' KB''"
      by (simp add: formatFileSize_def)
    from toFixed1_numeral [of 1024 b] obtain n ds
      where "toFixed1 b 1024 = ds @ ascii ''.'' @ [48 + n mod 10]"
        and "decimal_numeral ds (n div 10)"
        and "2 * 1024 * n \<le> 20 * b + 1024" and "20 * b + 1024 < 2 * 1024 * n + 2 * 1024"
      by auto
    then have "formatFileSize b = ds @ ascii ''.'' @ [48 + n mod 10] @ ascii '' KB''
             \<and> decimal_numeral ds (n div 10)
             \<and> 2048 * n \<le> 20 * b + 1024 \<and> 20 * b + 1024 < 2048 * n + 2048"
      using f by simp
    then show "\<exists>n ds. formatFileSize b = ds @ ascii ''.'' @ [48 + n mod 10] @ ascii '' KB''
             \<and> decimal_numeral ds (n div 10)
             \<and> 2048 * n \<le> 20 * b + 1024 \<and> 20 * b + 1024 < 2048 * n + 2048"
      by blast
  qed
  have M: "1048576 \<le> b \<and> b < 1073741824 \<longrightarrow>
        (\<exists>n ds. formatFileSize b = ds @ ascii ''.'' @ [48 + n mod 10] @ ascii '' MB''
             \<and> decimal_numeral ds (n div 10)
             \<and> 2097152 * n \<le> 20 * b + 1048576 \<and> 20 * b + 1048576 < 2097152 * n + 2097152)"
  proof
    assume r: "1048576 \<le> b \<and> b < 1073741824"
    then have f: "formatFileSize b = toFixed1 b (1024 * 1024) @ ascii '' MB''"
      by (simp add: formatFileSize_def)
    from toFixed1_numeral [of "1024 * 1024" b] obtain n ds
      where "toFixed1 b (1024 * 1024) = ds @ ascii ''.'' @ [48 + n mod 10]"
        and "decimal_numeral ds (n div 10)"
        and "2 * (1024 * 1024) * n \<le> 20 * b + 1024 * 1024"
        and "20 * b + 1024 * 1024 < 2 * (1024 * 1024) * n + 2 * (1024 * 1024)"
      by auto
    then have "formatFileSize b = ds @ ascii ''.'' @ [48 + n mod 10] @ ascii '' MB''
             \<and> decimal_numeral ds (n div 10)
             \<and> 2097152 * n \<le> 20 * b + 1048576 \<and> 20 * b + 1048576 < 2097152 * n + 2097152"
      using f by simp
    then show "\<exists>n ds. formatFileSize b = ds @ ascii ''.'' @ [48 + n mod 10] @ ascii '' MB''
             \<and> decimal_numeral ds (n div 10)
             \<and> 2097152 * n \<le> 20 * b + 1048576 \<and> 20 * b + 1048576 < 2097152 * n + 2097152"
      by blast
  qed
  have G: "1073741824 \<le> b \<longrightarrow>
        (\<exists>n ds. formatFileSize b = ds @ ascii ''.'' @ [48 + n mod 10] @ ascii '' GB''
             \<and> decimal_numeral ds (n div 10)
             \<and> 2147483648 * n \<le> 20 * b + 1073741824
             \<and> 20 * b + 1073741824 < 2147483648 * n + 2147483648)"
  proof
    assume r: "1073741824 \<le> b"
    then have f: "formatFileSize b = toFixed1 b (1024 * 1024 * 1024) @ ascii '' GB''"
      by (simp add: formatFileSize_def)
    from toFixed1_numeral [of "1024 * 1024 * 1024" b] obtain n ds
      where "toFixed1 b (1024 * 1024 * 1024) = ds @ ascii ''.'' @ [48 + n mod 10]"
        and "decimal_numeral ds (n div 10)"
        and "2 * (1024 * 1024 * 1024) * n \<le> 20 * b + 1024 * 1024 * 1024"
        and "20 * b + 1024 * 1024 * 1024 < 2 * (1024 * 1024 * 1024) * n + 2 * (1024 * 1024 * 1024)"
      by auto
    then have "formatFileSize b = ds @ ascii ''.'' @ [48 + n mod 10] @ ascii '' GB''
             \<and> decimal_numeral ds (n div 10)
             \<and> 2147483648 * n \<le> 20 * b + 1073741824
             \<and> 20 * b + 1073741824 < 2147483648 * n + 2147483648"
      using f by simp
    then show "\<exists>n ds. formatFileSize b = ds @ ascii ''.'' @ [48 + n mod 10] @ ascii '' GB''
             \<and> decimal_numeral ds (n div 10)
             \<and> 2147483648 * n \<le> 20 * b + 1073741824
             \<and> 20 * b + 1073741824 < 2147483648 * n + 2147483648"
      by blast
  qed
  have E: "formatFileSize 0 = ascii ''0 B''" "formatFileSize 1024 = ascii ''1.0 KB''"
    "formatFileSize 1048576 = ascii ''1.0 MB''" "formatFileSize 1073741824 = ascii ''1.0 GB''"
    "formatFileSize 1000 = ascii ''1000 B''" "formatFileSize 512000 = ascii ''500.0 KB''"
    by (simp_all add: formatFileSize_def toFixed1_def Let_def decimal.simps ascii_def)
  show ?thesis by (intro conjI B K M G E)
qed

theorem formatFileSize_binary_units_witness:
  "formatFileSize 1572864000 = ascii ''1.5 GB'' \<and> formatFileSize 999 = ascii ''999 B''"
proof -
  have g: "formatFileSize 1572864000 = ascii ''1.5 GB''"
  proof -
    have "(1073741824::nat) \<le> 1572864000" by simp
    with formatFileSize_binary_units [of 1572864000]
    obtain n ds where f: "formatFileSize 1572864000
                         = ds @ ascii ''.'' @ [48 + n mod 10] @ ascii '' GB''"
      and num: "decimal_numeral ds (n div 10)"
      and lo: "2147483648 * n \<le> 20 * 1572864000 + 1073741824"
      and hi: "20 * 1572864000 + 1073741824 < 2147483648 * n + 2147483648"
      by blast
    from lo hi have n: "n = 15" by arith
    from numeral_is_decimal [OF num] have "ds = decimal 1" using n by simp
    then show ?thesis using f n by (simp add: decimal.simps ascii_def)
  qed
  have b: "formatFileSize 999 = ascii ''999 B''"
  proof -
    have "(999::nat) < 1024" by simp
    with formatFileSize_binary_units [of 999]
    obtain ds where f: "formatFileSize 999 = ds @ ascii '' B''"
      and num: "decimal_numeral ds 999" by blast
    from numeral_is_decimal [OF num] have "ds = decimal 999" .
    then show ?thesis using f by (simp add: decimal.simps ascii_def)
  qed
  from g b show ?thesis by simp
qed

section \<open>Properties of the notification message and the URL pattern\<close>

lemma trim_strip:
  assumes "\<not> is_space c" and "\<not> is_space d"
  shows "trim (10 # c # xs @ d # [10, 32, 32, 32, 32]) = c # xs @ [d]"
proof -
  have sp: "is_space 10" "is_space 32" by (simp_all add: is_space_def)
  show ?thesis using assms sp by (simp add: trim_def)
qed

lemma notification_message_eq:
  "notification_message info =
     [55356, 57225, 32, 42, 42, 25991, 20214, 19978, 20256, 25104, 21151, 65281, 42, 42, 10, 10]
     @ getFileIcon (fileType info)
     @ [32, 42, 42, 25991, 20214, 21517, 65306, 42, 42, 32, 96]
     @ fileName info
     @ [96, 10, 55357, 56527, 32, 42, 42, 22823, 23567, 65306, 42, 42, 32]
     @ formatFileSize (fileSize info)
     @ [10, 55356, 56724, 32, 42, 42, 25991, 20214, 73, 68, 65306, 42, 42, 32, 96]
     @ fileId info
     @ [96, 10, 55357, 56599, 32, 42, 42, 35775, 38382, 38142, 25509, 65306, 42, 42, 32, 91,
        28857, 20987, 35775, 38382, 93, 40]
     @ fileUrl info
     @ [41, 10, 10]
     @ [96, 96, 96, 10] @ fileUrl info @ [10, 96, 96, 96]
     @ [10, 10, 95, 36890, 36807, 32, 84, 101, 108, 101, 103, 114, 97, 112, 104, 45, 73, 109,
        97, 103, 101, 32, 19978, 20256, 95]"
  (is "_ = ?rhs")
proof -
  let ?xs = "[57225, 32, 42, 42, 25991, 20214, 19978, 20256, 25104, 21151, 65281, 42, 42, 10, 10]
     @ getFileIcon (fileType info)
     @ [32, 42, 42, 25991, 20214, 21517, 65306, 42, 42, 32, 96]
     @ fileName info
     @ [96, 10, 55357, 56527, 32, 42, 42, 22823, 23567, 65306, 42, 42, 32]
     @ formatFileSize (fileSize info)
     @ [10, 55356, 56724, 32, 42, 42, 25991, 20214, 73, 68, 65306, 42, 42, 32, 96]
     @ fileId info
     @ [96, 10, 55357, 56599, 32, 42, 42, 35775, 38382, 38142, 25509, 65306, 42, 42, 32, 91,
        28857, 20987, 35775, 38382, 93, 40]
     @ fileUrl info
     @ [41, 10, 10]
     @ [96, 96, 96, 10] @ fileUrl info @ [10, 96, 96, 96]
     @ [10, 10, 95, 36890, 36807, 32, 84, 101, 108, 101, 103, 114, 97, 112, 104, 45, 73, 109,
        97, 103, 101, 32, 19978, 20256]"
  have "notification_message info = trim (10 # 55356 # ?xs @ 95 # [10, 32, 32, 32, 32])"
    by (simp add: notification_message_def ascii_def)
  also have "\<dots> = 55356 # ?xs @ [95]"
    by (rule trim_strip) (simp_all add: is_space_def)
  also have "\<dots> = ?rhs" by simp
  finally show ?thesis .
qed

lemma nl_then_h_append:
  "nl_then_h p (xs @ ys) = (nl_then_h p xs \<or> nl_then_h (ends_nl p xs) ys)"
  by (induction xs arbitrary: p) auto

lemma ends_nl_append: "ends_nl p (xs @ ys) = ends_nl (ends_nl p xs) ys"
  by (induction xs arbitrary: p) auto

lemma no_nl_clean:
  assumes "10 \<notin> set v"
  shows "nl_then_h False v = False" and "ends_nl False v = False"
  using assms by (induction v) auto

lemma rx_match_lits:
  "rx_match (map Lit l @ as) s = (if take (length l) s = l then rx_match as (drop (length l) s) else [])"
proof (induction l arbitrary: s)
  case Nil
  then show ?case by simp
next
  case (Cons c l)
  show ?case by (cases s) (simp_all add: Cons.IH)
qed

lemma rx_match_lits_only:
  "rx_match (map Lit l) s = (if take (length l) s = l then [drop (length l) s] else [])"
  using rx_match_lits [of l "[]" s] by simp

lemma rx_exec_at_needs:
  assumes "rx_exec_at urlRegex s = Some u"
  shows "\<exists>t. s = 96 # 96 # 96 # 10 # 104 # t"
proof -
  let ?L = "ascii ''```'' @ [10]"
  let ?H = "ascii ''http''"
  let ?as = "[OptLit 115] @ map Lit (ascii ''://'') @ [PlusNotSpace]"
  have L: "?L = [96, 96, 96, 10]" and H: "?H = [104, 116, 116, 112]"
    by (simp_all add: ascii_def)
  have b: "rx_match (rx_before urlRegex) s
            = (if take (length ?L) s = ?L then [drop (length ?L) s] else [])"
    by (simp only: urlRegex_def regex.select_convs rx_match_lits_only)
  have g: "rx_match (rx_group urlRegex) r
            = (if take (length ?H) r = ?H then rx_match ?as (drop (length ?H) r) else [])" for r
    by (simp only: urlRegex_def regex.select_convs rx_match_lits)
  have t4: "take (length ?L) s = ?L"
  proof (rule ccontr)
    assume "take (length ?L) s \<noteq> ?L"
    then have "rx_match (rx_before urlRegex) s = []" by (simp add: b)
    then have "rx_exec_at urlRegex s = None" by (simp add: rx_exec_at_def)
    with assms show False by simp
  qed
  then have b': "rx_match (rx_before urlRegex) s = [drop (length ?L) s]"
    by (simp add: b)
  have h4: "take (length ?H) (drop (length ?L) s) = ?H"
  proof (rule ccontr)
    assume "take (length ?H) (drop (length ?L) s) \<noteq> ?H"
    then have "rx_match (rx_group urlRegex) (drop (length ?L) s) = []"
      by (simp add: g)
    then have "rx_exec_at urlRegex s = None"
      by (simp add: rx_exec_at_def b')
    with assms show False by simp
  qed
  have "s = take (length ?L) s @ take (length ?H) (drop (length ?L) s)
              @ drop (length ?H) (drop (length ?L) s)"
    by (simp only: append_take_drop_id)
  then have "s = ?L @ ?H @ drop (length ?H) (drop (length ?L) s)"
    by (simp only: t4 h4)
  then have "s = 96 # 96 # 96 # 10 # 104 # ([116, 116, 112] @ drop (length ?H) (drop (length ?L) s))"
    unfolding L H by simp
  then show ?thesis by (rule exI)
qed

lemma rx_search_skip:
  assumes "\<And>a b. P = a @ b \<Longrightarrow> b \<noteq> [] \<Longrightarrow> rx_exec_at re (b @ B) = None"
  shows "rx_search re (P @ B) = rx_search re B"
  using assms
proof (induction P)
  case Nil
  then show ?case by simp
next
  case (Cons c P)
  have "rx_exec_at re ((c # P) @ B) = None"
    using Cons.prems [of "[]" "c # P"] by simp
  moreover have "rx_search re (P @ B) = rx_search re B"
  proof (rule Cons.IH)
    fix a b assume "P = a @ b" and "b \<noteq> []"
    then show "rx_exec_at re (b @ B) = None"
      using Cons.prems [of "c # a" b] by simp
  qed
  ultimately show ?case by simp
qed

lemma rx_search_hit:
  assumes "rx_exec_at re s = Some u"
  shows "rx_search re s = Some u"
  using assms by (cases s) simp_all

lemma starts_block_nl_then_h:
  assumes "b \<noteq> []" and "b @ 96 # 96 # 96 # R = 96 # 96 # 96 # 10 # 104 # t"
  shows "nl_then_h q b"
proof -
  from assms obtain x1 b1 where b: "b = x1 # b1" by (cases b) auto
  show ?thesis
  proof (cases b1)
    case Nil
    with assms b show ?thesis by simp
  next
    case (Cons x2 b2)
    note c2 = this
    show ?thesis
    proof (cases b2)
      case Nil
      with assms b c2 show ?thesis by simp
    next
      case (Cons x3 b3)
      note c3 = this
      show ?thesis
      proof (cases b3)
        case Nil
        with assms b c2 c3 show ?thesis by simp
      next
        case (Cons x4 b4)
        note c4 = this
        show ?thesis
        proof (cases b4)
          case Nil
          with assms b c2 c3 c4 show ?thesis by simp
        next
          case (Cons x5 b5)
          with assms b c2 c3 c4 show ?thesis by simp
        qed
      qed
    qed
  qed
qed

lemma nl_then_h_suffix:
  assumes "\<And>q. nl_then_h q b"
  shows "nl_then_h p (a @ b)"
  using assms by (simp add: nl_then_h_append)

lemma rx_search_past_prefix:
  assumes "\<not> nl_then_h False P"
  shows "rx_search urlRegex (P @ 96 # 96 # 96 # R) = rx_search urlRegex (96 # 96 # 96 # R)"
proof (rule rx_search_skip)
  fix a b assume P: "P = a @ b" and b: "b \<noteq> []"
  show "rx_exec_at urlRegex (b @ 96 # 96 # 96 # R) = None"
  proof (rule ccontr)
    assume "rx_exec_at urlRegex (b @ 96 # 96 # 96 # R) \<noteq> None"
    then obtain u where "rx_exec_at urlRegex (b @ 96 # 96 # 96 # R) = Some u" by auto
    from rx_exec_at_needs [OF this] obtain t
      where "b @ 96 # 96 # 96 # R = 96 # 96 # 96 # 10 # 104 # t" by blast
    from starts_block_nl_then_h [OF b this] have "\<And>q. nl_then_h q b" .
    then have "nl_then_h False (a @ b)" by (rule nl_then_h_suffix)
    with assms P show False by simp
  qed
qed

lemma rx_search_needs:
  assumes "rx_search urlRegex s = Some u"
  shows "nl_then_h p s"
  using assms
proof (induction s arbitrary: p)
  case Nil
  then have "rx_exec_at urlRegex [] = Some u" by simp
  from rx_exec_at_needs [OF this] show ?case by simp
next
  case (Cons c s)
  show ?case
  proof (cases "rx_exec_at urlRegex (c # s)")
    case None
    with Cons.prems have "rx_search urlRegex s = Some u" by simp
    from Cons.IH [OF this] show ?thesis by simp
  next
    case (Some v)
    from rx_exec_at_needs [OF this] show ?thesis by auto
  qed
qed

lemma rx_match_plus_first:
  assumes "rest \<noteq> []" and "\<forall>c\<in>set rest. \<not> is_space c"
  shows "\<exists>more. rx_match [PlusNotSpace] (rest @ 10 # T) = (10 # T) # more"
proof -
  have sp: "is_space 10" by (simp add: is_space_def)
  have tw: "takeWhile (\<lambda>c. \<not> is_space c) (rest @ 10 # T) = rest"
    using assms(2) sp by (simp add: takeWhile_append2)
  from assms(1) obtain n where n: "length rest = Suc n" by (cases rest) auto
  have "rx_match [PlusNotSpace] (rest @ 10 # T)
          = concat (map (\<lambda>k. [drop k (rest @ 10 # T)]) (rev [1..<Suc (length rest)]))"
    by (simp only: rx_match.simps tw)
  also have "\<dots> = drop (length rest) (rest @ 10 # T)
                 # concat (map (\<lambda>k. [drop k (rest @ 10 # T)]) (rev [1..<length rest]))"
    unfolding n by simp
  also have "drop (length rest) (rest @ 10 # T) = 10 # T" by simp
  finally show ?thesis by blast
qed

lemma rx_match_group_first:
  assumes "link = ascii ''http://'' @ rest \<or> link = ascii ''https://'' @ rest"
      and "rest \<noteq> []" and "\<forall>c\<in>set rest. \<not> is_space c"
  shows "\<exists>more. rx_match (rx_group urlRegex) (link @ 10 # T) = (10 # T) # more"
proof -
  let ?H = "ascii ''http''"
  let ?C = "ascii ''://''"
  from rx_match_plus_first [OF assms(2,3), of T] obtain more
    where p: "rx_match [PlusNotSpace] (rest @ 10 # T) = (10 # T) # more" by blast
  have c: "rx_match (map Lit ?C @ [PlusNotSpace]) (?C @ rest @ 10 # T) = (10 # T) # more"
    by (subst rx_match_lits) (simp add: p del: rx_match.simps)
  have g: "rx_match (rx_group urlRegex) (?H @ x)
             = rx_match (OptLit 115 # map Lit ?C @ [PlusNotSpace]) x" for x
    by (simp only: urlRegex_def regex.select_convs rx_match_lits) simp
  from assms(1) show ?thesis
  proof
    assume "link = ascii ''http://'' @ rest"
    then have u: "link @ 10 # T = ?H @ ?C @ rest @ 10 # T" by (simp add: ascii_def)
    have "?C @ rest @ 10 # T = 58 # (ascii ''//'' @ rest @ 10 # T)" by (simp add: ascii_def)
    then have "rx_match (OptLit 115 # map Lit ?C @ [PlusNotSpace]) (?C @ rest @ 10 # T)
           = rx_match (map Lit ?C @ [PlusNotSpace]) (?C @ rest @ 10 # T)"
      by simp
    then show ?thesis unfolding u g c by blast
  next
    assume "link = ascii ''https://'' @ rest"
    then have u: "link @ 10 # T = ?H @ 115 # ?C @ rest @ 10 # T" by (simp add: ascii_def)
    have "rx_match (map Lit ?C @ [PlusNotSpace]) (115 # ?C @ rest @ 10 # T) = []"
      by (simp add: ascii_def)
    then have "rx_match (OptLit 115 # map Lit ?C @ [PlusNotSpace]) (115 # ?C @ rest @ 10 # T)
           = rx_match (map Lit ?C @ [PlusNotSpace]) (?C @ rest @ 10 # T)"
      by simp
    then show ?thesis unfolding u g c by blast
  qed
qed

lemma rx_exec_at_block:
  assumes "link = ascii ''http://'' @ rest \<or> link = ascii ''https://'' @ rest"
      and "rest \<noteq> []" and "\<forall>c\<in>set rest. \<not> is_space c"
  shows "rx_exec_at urlRegex (96 # 96 # 96 # 10 # link @ 10 # 96 # 96 # 96 # post) = Some link"
proof -
  let ?T = "96 # 96 # 96 # post"
  let ?L = "ascii ''```'' @ [10]"
  from rx_match_group_first [OF assms, of ?T] obtain more
    where g: "rx_match (rx_group urlRegex) (link @ 10 # ?T) = (10 # ?T) # more" by blast
  have s: "96 # 96 # 96 # 10 # link @ 10 # ?T = ?L @ link @ 10 # ?T" by (simp add: ascii_def)
  have b: "rx_match (rx_before urlRegex) (?L @ link @ 10 # ?T) = [link @ 10 # ?T]"
    by (simp only: urlRegex_def regex.select_convs rx_match_lits_only) simp
  have a: "rx_match (rx_after urlRegex) (10 # ?T) \<noteq> []"
    by (simp add: urlRegex_def ascii_def)
  have e: "rx_exec_at urlRegex (?L @ link @ 10 # ?T) = Some link"
    unfolding rx_exec_at_def b by (simp add: g a)
  show ?thesis unfolding s by (rule e)
qed

lemma formatFileSize_no_nl: "10 \<notin> set (formatFileSize n)"
proof
  assume "10 \<in> set (formatFileSize n)"
  then have "\<exists>m. 10 \<in> set (decimal m)"
    by (auto simp add: formatFileSize_def toFixed1_def Let_def ascii_def split: if_splits)
  then obtain m where "10 \<in> set (decimal m)" by blast
  from decimal_set [OF this] show False by simp
qed

lemma getFileIcon_clean:
  "nl_then_h True (getFileIcon t) = False" "ends_nl True (getFileIcon t) = False"
  by (simp_all add: getFileIcon_def)

lemma message_prefix_clean:
  assumes "10 \<notin> set (fileName info)" and "10 \<notin> set (fileId info)"
      and "10 \<notin> set (fileUrl info)"
  shows "\<not> nl_then_h False
          ([55356, 57225, 32, 42, 42, 25991, 20214, 19978, 20256, 25104, 21151, 65281, 42, 42,
            10, 10]
           @ getFileIcon (fileType info)
           @ [32, 42, 42, 25991, 20214, 21517, 65306, 42, 42, 32, 96]
           @ fileName info
           @ [96, 10, 55357, 56527, 32, 42, 42, 22823, 23567, 65306, 42, 42, 32]
           @ formatFileSize (fileSize info)
           @ [10, 55356, 56724, 32, 42, 42, 25991, 20214, 73, 68, 65306, 42, 42, 32, 96]
           @ fileId info
           @ [96, 10, 55357, 56599, 32, 42, 42, 35775, 38382, 38142, 25509, 65306, 42, 42, 32,
              91, 28857, 20987, 35775, 38382, 93, 40]
           @ fileUrl info
           @ [41, 10, 10])"
  using no_nl_clean [OF assms(1)] no_nl_clean [OF assms(2)] no_nl_clean [OF assms(3)]
    no_nl_clean [OF formatFileSize_no_nl, of "fileSize info"]
  by (simp add: nl_then_h_append ends_nl_append getFileIcon_clean)

text \<open>
  A relative URL is never found: the message built for \<^verbatim>\<open>/file/abc.png\<close> holds the
  literal block, but the pattern asks for \<^verbatim>\<open>http://\<close> or \<^verbatim>\<open>https://\<close>. The upload handler
  passes the absolute URL.
\<close>

lemma notification_relative_url_not_found:
  "fileUrl relative_info = ascii ''/file/abc.png''
   \<and> rx_search urlRegex (notification_message relative_info) = None
   \<and> rx_search urlRegex (notification_message relative_info) \<noteq> Some (ascii ''/file/abc.png'')"
proof -
  have "\<not> nl_then_h False (notification_message relative_info)"
    unfolding notification_message_eq
    by (simp add: relative_info_def getFileIcon_def formatFileSize_def decimal.simps ascii_def)
  then have "rx_search urlRegex (notification_message relative_info) = None"
    using rx_search_needs [of "notification_message relative_info" _ False] by (cases "rx_search urlRegex (notification_message relative_info)") auto
  then show ?thesis by (simp add: relative_info_def)
qed

text \<open>
  Where the round trip holds: for an absolute URL without white space, and a file name and
  file id without line feed, the pattern returns the URL of the block unchanged.
\<close>

lemma notification_url_round_trip:
  assumes "fileUrl info = ascii ''http://'' @ rest \<or> fileUrl info = ascii ''https://'' @ rest"
      and "rest \<noteq> []" and "\<forall>c\<in>set rest. \<not> is_space c"
      and "10 \<notin> set (fileName info)" and "10 \<notin> set (fileId info)"
  shows "(\<exists>pre post. notification_message info
            = pre @ ascii ''```'' @ [10] @ fileUrl info @ [10] @ ascii ''```'' @ post)
         \<and> rx_search urlRegex (notification_message info) = Some (fileUrl info)"
proof -
  let ?P = "[55356, 57225, 32, 42, 42, 25991, 20214, 19978, 20256, 25104, 21151, 65281, 42, 42,
            10, 10]
           @ getFileIcon (fileType info)
           @ [32, 42, 42, 25991, 20214, 21517, 65306, 42, 42, 32, 96]
           @ fileName info
           @ [96, 10, 55357, 56527, 32, 42, 42, 22823, 23567, 65306, 42, 42, 32]
           @ formatFileSize (fileSize info)
           @ [10, 55356, 56724, 32, 42, 42, 25991, 20214, 73, 68, 65306, 42, 42, 32, 96]
           @ fileId info
           @ [96, 10, 55357, 56599, 32, 42, 42, 35775, 38382, 38142, 25509, 65306, 42, 42, 32,
              91, 28857, 20987, 35775, 38382, 93, 40]
           @ fileUrl info
           @ [41, 10, 10]"
  let ?post = "[10, 10, 95, 36890, 36807, 32, 84, 101, 108, 101, 103, 114, 97, 112, 104, 45, 73,
                109, 97, 103, 101, 32, 19978, 20256, 95]"
  have sp: "is_space 10" by (simp add: is_space_def)
  have "10 \<notin> set rest" using assms(3) sp by blast
  then have nl: "10 \<notin> set (fileUrl info)"
    using assms(1) by (auto simp add: ascii_def)
  have m: "notification_message info
             = ?P @ 96 # 96 # 96 # (10 # fileUrl info @ 10 # 96 # 96 # 96 # ?post)"
    unfolding notification_message_eq by simp
  have block: "\<exists>pre post. notification_message info
            = pre @ ascii ''```'' @ [10] @ fileUrl info @ [10] @ ascii ''```'' @ post"
  proof (intro exI)
    show "notification_message info
            = ?P @ ascii ''```'' @ [10] @ fileUrl info @ [10] @ ascii ''```'' @ ?post"
      unfolding m by (simp add: ascii_def)
  qed
  have "rx_search urlRegex (notification_message info)
          = rx_search urlRegex (96 # 96 # 96 # (10 # fileUrl info @ 10 # 96 # 96 # 96 # ?post))"
    unfolding m
    by (rule rx_search_past_prefix) (rule message_prefix_clean [OF assms(4,5) nl])
  also have "\<dots> = Some (fileUrl info)"
    by (rule rx_search_hit) (rule rx_exec_at_block [OF assms(1-3)])
  finally show ?thesis using block by blast
qed

lemma notification_url_round_trip_example:
  "rx_search urlRegex (notification_message absolute_info)
     = Some (ascii ''https://example.com/file/abc.png'')"
proof -
  have h: "fileUrl absolute_info = ascii ''http://'' @ ascii ''example.com/file/abc.png''
           \<or> fileUrl absolute_info = ascii ''https://'' @ ascii ''example.com/file/abc.png''"
    "ascii ''example.com/file/abc.png'' \<noteq> []"
    "\<forall>c\<in>set (ascii ''example.com/file/abc.png''). \<not> is_space c"
    "10 \<notin> set (fileName absolute_info)" "10 \<notin> set (fileId absolute_info)"
    by (simp_all add: absolute_info_def ascii_def is_space_def)
  from notification_url_round_trip [OF h] show ?thesis
    by (simp add: absolute_info_def)
qed

section \<open>Properties of the webhook\<close>

lemma webhook_parse_failure:
  "handleTelegramWebhook net e (Inl err) w
     = (\<lparr>status = 500, content = Text (ascii ''Error handling webhook'')\<rparr>, w)"
  by (simp add: handleTelegramWebhook_def webhook_try_def)

lemma webhook_other_shapes:
  assumes "callback_query u = None
           \<or> (\<exists>q. callback_query u = Some q \<and> cq_data q \<noteq> Some (ascii ''copy_link''))"
  shows "handleTelegramWebhook net e (Inr u) w = (\<lparr>status = 200, content = Text (ascii ''OK'')\<rparr>, w)"
  using assms by (auto simp add: handleTelegramWebhook_def webhook_try_def)

lemma webhook_token_with_text:
  assumes "callback_query u = Some q" and "cq_data q = Some (ascii ''copy_link'')"
      and "cq_message q = Some m" and "msg_text m = Some t"
  shows "calls (snd (handleTelegramWebhook net e (Inr u) w))
           = calls w @
             [\<lparr>url = api_url e (ascii ''answerCallbackQuery''),
               body = AnswerCallbackJson (cq_id q)
                 (case rx_search urlRegex t of
                    Some link \<Rightarrow>
                      if link \<noteq> [] then
                        [38142, 25509, 24050, 20934, 22791, 22909, 65292, 35831, 31896, 36148,
                         65281, 10, 10] @ link
                      else [26080, 27861, 25214, 21040, 38142, 25509, 12290]
                  | None \<Rightarrow> [26080, 27861, 25214, 21040, 38142, 25509, 12290])
                 True\<rparr>]
         \<and> status (fst (handleTelegramWebhook net e (Inr u) w))
             = (case net (length (calls w)) of Throws \<Rightarrow> 500 | Responds h d \<Rightarrow> 200)"
  using assms
  by (simp add: handleTelegramWebhook_def webhook_try_def fetch_def Let_def
      split: fetch_outcome.split)

text \<open>
  Claim C9 fails on the code where a callback with the token carries no message, or a
  message without text: reading the text throws, no answer is sent and the handler
  responds 500, although the update is well formed and is no parse failure.
\<close>

theorem webhook_token_without_text_fails:
  "handleTelegramWebhook net e (Inr token_without_message) world0
     = (\<lparr>status = 500, content = Text (ascii ''Error handling webhook'')\<rparr>, world0)
   \<and> handleTelegramWebhook net e (Inr token_without_text) world0
     = (\<lparr>status = 500, content = Text (ascii ''Error handling webhook'')\<rparr>, world0)
   \<and> calls world0 = []"
  by (simp add: handleTelegramWebhook_def webhook_try_def token_without_message_def
      token_without_text_def world0_def)

section \<open>Properties of the upload handler\<close>

lemma api_url_flag [simp]: "api_url (e\<lparr>DISABLE_NOTIFICATION := d\<rparr>) ep = api_url e ep"
  by (simp add: api_url_def)

lemma sendToTelegram_flag:
  "sendToTelegram net fd ep (e\<lparr>DISABLE_NOTIFICATION := d\<rparr>) rc w = sendToTelegram net fd ep e rc w"
proof (induction "MAX_RETRIES - rc" arbitrary: rc w fd ep)
  case 0
  then have "\<not> rc < MAX_RETRIES" by simp
  then show ?case
    by (subst (1 2) sendToTelegram_unfold) (simp add: Let_def split: fetch_outcome.split)
next
  case (Suc k)
  then have k: "k = MAX_RETRIES - Suc rc" by simp
  note ih = Suc.hyps(1) [OF k]
  show ?case
    by (subst (1 2) sendToTelegram_unfold) (auto simp add: Let_def ih split: fetch_outcome.split)
qed

lemma sendToTelegram_calls_multipart:
  "\<exists>rs. calls (snd (sendToTelegram net fd ep e rc w)) = calls w @ rs
        \<and> (\<forall>r\<in>set rs. \<exists>f. body r = Multipart f)"
proof (induction "MAX_RETRIES - rc" arbitrary: rc w fd ep)
  case 0
  then have "\<not> rc < MAX_RETRIES" by simp
  then show ?case
    by (subst sendToTelegram_unfold) (simp add: Let_def split: fetch_outcome.split)
next
  case (Suc k)
  then have k: "k = MAX_RETRIES - (rc + 1)" and lt: "rc < MAX_RETRIES" by simp_all
  note ih = Suc.hyps(1) [OF k]
  let ?rq = "\<lparr>url = api_url e ep, body = Multipart fd\<rparr>"
  let ?w1 = "w\<lparr>calls := calls w @ [?rq]\<rparr>"
  have step: "\<exists>rs. calls (snd (sendToTelegram net fd' ep' e (rc + 1) w')) = calls w @ rs
                \<and> (\<forall>r\<in>set rs. \<exists>f. body r = Multipart f)"
    if "calls w' = calls w @ [?rq]" for fd' ep' w'
  proof -
    from ih [where w = w' and fd = fd' and ep = ep'] obtain rs
      where "calls (snd (sendToTelegram net fd' ep' e (rc + 1) w')) = calls w' @ rs"
        and "\<forall>r\<in>set rs. \<exists>f. body r = Multipart f" by blast
    then have "calls (snd (sendToTelegram net fd' ep' e (rc + 1) w')) = calls w @ (?rq # rs)
               \<and> (\<forall>r\<in>set (?rq # rs). \<exists>f. body r = Multipart f)"
      using that by simp
    then show ?thesis by blast
  qed
  have one: "\<exists>rs. calls ?w1 = calls w @ rs \<and> (\<forall>r\<in>set rs. \<exists>f. body r = Multipart f)"
  proof (intro exI conjI)
    show "calls ?w1 = calls w @ [?rq]" by simp
    show "\<forall>r\<in>set [?rq]. \<exists>f. body r = Multipart f" by simp
  qed
  show ?case
  proof (cases "net (length (calls w))")
    case Throws
    have "calls (sleep (1000 * (rc + 1)) ?w1) = calls w @ [?rq]" by (simp add: sleep_def)
    from step [OF this] show ?thesis
      using Throws lt by (subst sendToTelegram_unfold) (simp add: Let_def)
  next
    case (Responds h d)
    have "calls ?w1 = calls w @ [?rq]" by simp
    from step [OF this, of "document_form fd" "ascii ''sendDocument''"] one show ?thesis
      using Responds lt by (subst sendToTelegram_unfold) (auto simp add: Let_def)
  qed
qed

lemma sendFileNotification_returns: "fst (sendFileNotification net e info w) = Inr ()"
  by (simp add: sendFileNotification_def fetch_def Let_def split: fetch_outcome.split)

lemma sendFileNotification_disabled:
  "sendFileNotification net (e\<lparr>DISABLE_NOTIFICATION := Some (ascii ''true'')\<rparr>) info w = (Inr (), w)"
  by (simp add: sendFileNotification_def)

lemma sendFileNotification_result:
  "sendFileNotification net e info w = (a, b) \<Longrightarrow> a = Inr ()"
  using sendFileNotification_returns [of net e info w] by simp

lemma upload_try_flag:
  "fst (upload_try lower net (e\<lparr>DISABLE_NOTIFICATION := d\<rparr>) rq w)
     = fst (upload_try lower net e rq w)"
  by (auto simp add: upload_try_def Let_def sendToTelegram_flag kv_put_def
      split: sum.splits option.splits prod.splits send_result.splits if_splits
      dest: sendFileNotification_result)

lemma upload_try_disabled_calls:
  "calls (snd (upload_try lower net (e\<lparr>DISABLE_NOTIFICATION := Some (ascii ''true'')\<rparr>) rq w))
     = calls w
   \<or> (\<exists>fd ep. calls (snd (upload_try lower net
                              (e\<lparr>DISABLE_NOTIFICATION := Some (ascii ''true'')\<rparr>) rq w))
                = calls (snd (sendToTelegram net fd ep e 0 w)))"
proof (cases "\<exists>f. form_file rq = Inr (Some f) \<and> middleware_throws rq = None")
  case False
  then have "snd (upload_try lower net (e\<lparr>DISABLE_NOTIFICATION := Some (ascii ''true'')\<rparr>) rq w) = w"
    by (auto simp add: upload_try_def split: sum.splits option.splits)
  then show ?thesis by simp
next
  case True
  then obtain f where f: "form_file rq = Inr (Some f)" "middleware_throws rq = None" by blast
  let ?fd = "fd_append (fd_append [] (ascii ''chat_id'') (Some (FString (TG_Chat_ID e))))
               (fst (chooseUpload (ftype f))) (Some (FFile f))"
  let ?ep = "snd (chooseUpload (ftype f))"
  have "calls (snd (upload_try lower net (e\<lparr>DISABLE_NOTIFICATION := Some (ascii ''true'')\<rparr>) rq w))
          = calls (snd (sendToTelegram net ?fd ?ep e 0 w))"
    using f
    by (auto simp add: upload_try_def Let_def sendToTelegram_flag kv_put_def
        sendFileNotification_disabled
        split: sum.splits option.splits prod.splits send_result.splits if_splits)
  then show ?thesis by blast
qed

lemma handleFileUpload_fst:
  "fst (handleFileUpload lower net e rq w)
     = (case fst (upload_try lower net e rq w) of
          Inr src \<Rightarrow> \<lparr>status = 200, content = SrcList src\<rparr>
        | Inl err \<Rightarrow> \<lparr>status = 500, content = ErrorObject err\<rparr>)"
  by (simp add: handleFileUpload_def split: prod.split sum.split)

lemma handleFileUpload_snd:
  "snd (handleFileUpload lower net e rq w) = snd (upload_try lower net e rq w)"
  by (simp add: handleFileUpload_def split: prod.split sum.split)

text \<open>
  Claim C8. With \<^verbatim>\<open>DISABLE_NOTIFICATION\<close> set to \<^verbatim>\<open>true\<close>, \<open>sendFileNotification\<close> returns
  normally and leaves the world as it was, so it sends nothing; the response of the upload
  handler is the one it gives under any other setting of the flag, in particular 200 with
  the same body when the upload succeeds; and every request the handler sends is a
  multipart upload, none a \<^verbatim>\<open>sendMessage\<close>.
\<close>

theorem disable_notification_flag:
  "sendFileNotification net (e\<lparr>DISABLE_NOTIFICATION := Some (ascii ''true'')\<rparr>) info w = (Inr (), w)
   \<and> fst (handleFileUpload lower net (e\<lparr>DISABLE_NOTIFICATION := Some (ascii ''true'')\<rparr>) rq w)
       = fst (handleFileUpload lower net e rq w)
   \<and> (\<forall>r\<in>set (calls (snd (handleFileUpload lower net
                               (e\<lparr>DISABLE_NOTIFICATION := Some (ascii ''true'')\<rparr>) rq world0))).
         \<exists>f. body r = Multipart f)"
proof -
  let ?e = "e\<lparr>DISABLE_NOTIFICATION := Some (ascii ''true'')\<rparr>"
  have a: "sendFileNotification net ?e info w = (Inr (), w)"
    by (rule sendFileNotification_disabled)
  have b: "fst (handleFileUpload lower net ?e rq w) = fst (handleFileUpload lower net e rq w)"
    unfolding handleFileUpload_fst upload_try_flag ..
  have c: "\<forall>r\<in>set (calls (snd (handleFileUpload lower net ?e rq world0))). \<exists>f. body r = Multipart f"
  proof -
    from upload_try_disabled_calls [of lower net e rq world0]
    show ?thesis
    proof
      assume "calls (snd (upload_try lower net ?e rq world0)) = calls world0"
      then show ?thesis unfolding handleFileUpload_snd by (simp add: world0_def)
    next
      assume "\<exists>fd ep. calls (snd (upload_try lower net ?e rq world0))
                = calls (snd (sendToTelegram net fd ep e 0 world0))"
      then obtain fd ep where eq: "calls (snd (upload_try lower net ?e rq world0))
                = calls (snd (sendToTelegram net fd ep e 0 world0))" by blast
      from sendToTelegram_calls_multipart [of net fd ep e 0 world0] obtain rs
        where "calls (snd (sendToTelegram net fd ep e 0 world0)) = calls world0 @ rs"
          and "\<forall>r\<in>set rs. \<exists>f. body r = Multipart f" by blast
      then show ?thesis unfolding handleFileUpload_snd eq by (simp add: world0_def)
    qed
  qed
  from a b c show ?thesis by blast
qed

theorem disable_notification_flag_witness:
  "fst (handleFileUpload (\<lambda>s. s) always_up
          (env0\<lparr>DISABLE_NOTIFICATION := Some (ascii ''true'')\<rparr>) upload0 world0)
     = \<lparr>status = 200, content = SrcList (ascii ''/file/big.png'')\<rparr>
   \<and> length (calls (snd (handleFileUpload (\<lambda>s. s) always_up env0 upload0 world0))) = 2
   \<and> length (calls (snd (handleFileUpload (\<lambda>s. s) always_up
          (env0\<lparr>DISABLE_NOTIFICATION := Some (ascii ''true'')\<rparr>) upload0 world0))) = 1"
proof -
  have ep: "chooseUpload (ftype png0) = (ascii ''photo'', ascii ''sendPhoto'')"
    by (simp add: chooseUpload_def png0_def ascii_def)
  have send: "sendToTelegram always_up fd ep e1 0 \<lparr>calls = [], sleeps = [], kv_puts = []\<rparr>
        = (Success sent_photo,
           \<lparr>calls = [\<lparr>url = api_url e1 ep, body = Multipart fd\<rparr>], sleeps = [], kv_puts = []\<rparr>)"
    for fd ep e1
    by (subst sendToTelegram_unfold) (simp add: always_up_def Let_def)
  have fid: "getFileId sent_photo = Inr (Some (ascii ''big''))"
    by (simp add: getFileId_def sent_photo_def reduce_def larger_def)
  have ext: "split_pop (fname png0) = ascii ''png''"
    by (simp add: split_pop_def png0_def ascii_def)
  have ne: "ascii ''big'' \<noteq> []" by (simp add: ascii_def)
  have on: "fst (upload_try (\<lambda>s. s) always_up env0 upload0 world0)
              = Inr (ascii ''/file/big.png'')
            \<and> length (calls (snd (upload_try (\<lambda>s. s) always_up env0 upload0 world0))) = 2"
    by (simp add: upload_try_def upload0_def ep send fid ext ne Let_def env0_def
        sendFileNotification_def fetch_def always_up_def world0_def ascii_def)
  have off: "length (calls (snd (upload_try (\<lambda>s. s) always_up
                (env0\<lparr>DISABLE_NOTIFICATION := Some (ascii ''true'')\<rparr>) upload0 world0))) = 1"
    by (simp add: upload_try_def upload0_def ep send fid ext ne Let_def env0_def
        sendFileNotification_def world0_def ascii_def)
  have r_on: "fst (handleFileUpload (\<lambda>s. s) always_up env0 upload0 world0)
            = \<lparr>status = 200, content = SrcList (ascii ''/file/big.png'')\<rparr>"
    using on by (simp add: handleFileUpload_fst)
  from disable_notification_flag [of always_up env0 _ world0 "\<lambda>s. s" upload0]
  have "fst (handleFileUpload (\<lambda>s. s) always_up
          (env0\<lparr>DISABLE_NOTIFICATION := Some (ascii ''true'')\<rparr>) upload0 world0)
        = fst (handleFileUpload (\<lambda>s. s) always_up env0 upload0 world0)"
    by blast
  then show ?thesis using r_on on off by (simp add: handleFileUpload_snd)
qed

section \<open>From the upload to the webhook\<close>

lemma rx_search_fence:
  assumes "rx_search urlRegex s = Some u"
  shows "has_fence_h s"
  using assms
proof (induction s)
  case Nil
  then have "rx_exec_at urlRegex [] = Some u" by simp
  from rx_exec_at_needs [OF this] show ?case by simp
next
  case (Cons c s)
  show ?case
  proof (cases "rx_exec_at urlRegex (c # s)")
    case None
    with Cons.prems have "rx_search urlRegex s = Some u" by simp
    from Cons.IH [OF this] show ?thesis by simp
  next
    case (Some v)
    from rx_exec_at_needs [OF this] show ?thesis by simp
  qed
qed

lemma first_some_none: "(\<And>x. x \<in> set xs \<Longrightarrow> f x = None) \<Longrightarrow> first_some f xs = None"
  by (induction xs) simp_all

lemma rx_match_plus_all:
  "rx_match [PlusNotSpace] s
     = map (\<lambda>k. drop k s) (rev [1..<Suc (length (takeWhile (\<lambda>c. \<not> is_space c) s))])"
  by (simp add: concat_map_singleton)

text \<open>
  After \<^verbatim>\<open>https://\<close> the run of characters that are no white space ends at a white space
  other than the line feed: no way of matching \<^verbatim>\<open>[^\s]+\<close> is followed by a line feed.
\<close>

lemma rx_exec_at_broken_block:
  assumes "\<forall>c\<in>set run. \<not> is_space c" and "is_space x" and "x \<noteq> 10"
  shows "rx_exec_at urlRegex
           (96 # 96 # 96 # 10 # ascii ''https://'' @ run @ x # T) = None"
proof -
  let ?L = "ascii ''```'' @ [10]"
  let ?H = "ascii ''http''"
  let ?C = "ascii ''://''"
  let ?s = "run @ x # T"
  have tw: "takeWhile (\<lambda>c. \<not> is_space c) ?s = run"
    using assms(1,2) by (simp add: takeWhile_append2)
  have not_lf: "r \<noteq> [] \<and> hd r \<noteq> 10" if "r \<in> set (rx_match [PlusNotSpace] ?s)" for r
  proof -
    from that obtain k where k: "1 \<le> k" "k \<le> length run" and r: "r = drop k ?s"
      unfolding rx_match_plus_all tw by auto
    show ?thesis
    proof (cases "k = length run")
      case True
      then show ?thesis using r assms(3) by simp
    next
      case False
      then have lt: "k < length run" using k by simp
      then have "r = drop k run @ x # T" using r by simp
      moreover have "drop k run \<noteq> []" using lt by simp
      moreover have "hd (drop k run) \<in> set run"
        using lt by (metis \<open>drop k run \<noteq> []\<close> hd_in_set in_set_dropD)
      moreover have "is_space 10" by (simp add: is_space_def)
      ultimately show ?thesis using assms(1) by (cases "drop k run") auto
    qed
  qed
  have after: "rx_match (rx_after urlRegex) r = []" if "r \<noteq> [] \<and> hd r \<noteq> 10" for r
    using that by (cases r) (simp_all add: urlRegex_def)
  have c: "rx_match (map Lit ?C @ [PlusNotSpace]) (?C @ ?s) = rx_match [PlusNotSpace] ?s"
    by (subst rx_match_lits) (simp del: rx_match.simps)
  have c0: "rx_match (map Lit ?C @ [PlusNotSpace]) (115 # ?C @ ?s) = []"
    by (simp add: ascii_def)
  have o: "rx_match (OptLit 115 # map Lit ?C @ [PlusNotSpace]) (115 # ?C @ ?s)
             = rx_match [PlusNotSpace] ?s"
    using c c0 by simp
  have g: "rx_match (rx_group urlRegex) (?H @ y)
             = rx_match (OptLit 115 # map Lit ?C @ [PlusNotSpace]) y" for y
    by (simp only: urlRegex_def regex.select_convs rx_match_lits) simp
  have u: "ascii ''https://'' @ ?s = ?H @ 115 # ?C @ ?s" by (simp add: ascii_def)
  have grp: "rx_match (rx_group urlRegex) (ascii ''https://'' @ ?s) = rx_match [PlusNotSpace] ?s"
    by (simp only: u g o)
  have b: "rx_match (rx_before urlRegex) (?L @ ascii ''https://'' @ ?s) = [ascii ''https://'' @ ?s]"
    by (simp only: urlRegex_def regex.select_convs rx_match_lits_only) simp
  have inner: "first_some
          (\<lambda>r2. if rx_match (rx_after urlRegex) r2 \<noteq> []
                then Some (take (length (ascii ''https://'' @ ?s) - length r2) (ascii ''https://'' @ ?s))
                else None)
          (rx_match [PlusNotSpace] ?s) = None"
  proof (rule first_some_none)
    fix r assume "r \<in> set (rx_match [PlusNotSpace] ?s)"
    from after [OF not_lf [OF this]]
    show "(if rx_match (rx_after urlRegex) r \<noteq> []
           then Some (take (length (ascii ''https://'' @ ?s) - length r) (ascii ''https://'' @ ?s))
           else None) = None"
      by simp
  qed
  have e: "rx_exec_at urlRegex (?L @ ascii ''https://'' @ ?s) = None"
    unfolding rx_exec_at_def b by (simp add: grp inner del: rx_match.simps)
  have s: "96 # 96 # 96 # 10 # ascii ''https://'' @ run @ x # T = ?L @ ascii ''https://'' @ ?s"
    by (simp add: ascii_def)
  show ?thesis unfolding s by (rule e)
qed

lemma notification_message_block:
  "\<exists>pre post. notification_message info
      = pre @ ascii ''```'' @ [10] @ fileUrl info @ [10] @ ascii ''```'' @ post"
proof (intro exI)
  show "notification_message info
      = ([55356, 57225, 32, 42, 42, 25991, 20214, 19978, 20256, 25104, 21151, 65281, 42, 42,
          10, 10]
         @ getFileIcon (fileType info)
         @ [32, 42, 42, 25991, 20214, 21517, 65306, 42, 42, 32, 96]
         @ fileName info
         @ [96, 10, 55357, 56527, 32, 42, 42, 22823, 23567, 65306, 42, 42, 32]
         @ formatFileSize (fileSize info)
         @ [10, 55356, 56724, 32, 42, 42, 25991, 20214, 73, 68, 65306, 42, 42, 32, 96]
         @ fileId info
         @ [96, 10, 55357, 56599, 32, 42, 42, 35775, 38382, 38142, 25509, 65306, 42, 42, 32,
            91, 28857, 20987, 35775, 38382, 93, 40]
         @ fileUrl info
         @ [41, 10, 10])
        @ ascii ''```'' @ [10] @ fileUrl info @ [10] @ ascii ''```''
        @ [10, 10, 95, 36890, 36807, 32, 84, 101, 108, 101, 103, 114, 97, 112, 104, 45, 73,
           109, 97, 103, 101, 32, 19978, 20256, 95]"
    unfolding notification_message_eq by (simp add: ascii_def)
qed

lemma my_photo_no_link: "rx_search urlRegex (notification_message my_photo_info) = None"
proof -
  let ?post = "[10, 10, 95, 36890, 36807, 32, 84, 101, 108, 101, 103, 114, 97, 112, 104, 45, 73,
                109, 97, 103, 101, 32, 19978, 20256, 95]"
  let ?P = "[55356, 57225, 32, 42, 42, 25991, 20214, 19978, 20256, 25104, 21151, 65281, 42, 42,
            10, 10]
           @ getFileIcon (fileType my_photo_info)
           @ [32, 42, 42, 25991, 20214, 21517, 65306, 42, 42, 32, 96]
           @ fileName my_photo_info
           @ [96, 10, 55357, 56527, 32, 42, 42, 22823, 23567, 65306, 42, 42, 32]
           @ formatFileSize (fileSize my_photo_info)
           @ [10, 55356, 56724, 32, 42, 42, 25991, 20214, 73, 68, 65306, 42, 42, 32, 96]
           @ fileId my_photo_info
           @ [96, 10, 55357, 56599, 32, 42, 42, 35775, 38382, 38142, 25509, 65306, 42, 42, 32,
              91, 28857, 20987, 35775, 38382, 93, 40]
           @ fileUrl my_photo_info
           @ [41, 10, 10]"
  let ?run = "ascii ''example.com/file/big.my''"
  let ?T = "ascii ''photo'' @ 10 # 96 # 96 # 96 # ?post"
  let ?B = "96 # 96 # 96 # 10 # ascii ''https://'' @ ?run @ 32 # ?T"
  have clean: "10 \<notin> set (fileName my_photo_info)" "10 \<notin> set (fileId my_photo_info)"
    "10 \<notin> set (fileUrl my_photo_info)"
    by (simp_all add: my_photo_info_def ascii_def)
  have m: "notification_message my_photo_info
             = ?P @ 96 # 96 # 96 # (10 # fileUrl my_photo_info @ 10 # 96 # 96 # 96 # ?post)"
    unfolding notification_message_eq by simp
  have B: "96 # 96 # 96 # (10 # fileUrl my_photo_info @ 10 # 96 # 96 # 96 # ?post) = ?B"
    by (simp add: my_photo_info_def ascii_def)
  have "rx_search urlRegex (notification_message my_photo_info) = rx_search urlRegex ?B"
    unfolding m B [symmetric]
    by (rule rx_search_past_prefix) (rule message_prefix_clean [OF clean])
  also have "\<dots> = rx_search urlRegex (tl ?B)"
  proof -
    have "rx_exec_at urlRegex ?B = None"
      by (rule rx_exec_at_broken_block) (simp_all add: ascii_def is_space_def)
    then show ?thesis by simp
  qed
  also have "\<dots> = None"
  proof (rule ccontr)
    assume "rx_search urlRegex (tl ?B) \<noteq> None"
    then obtain u where "rx_search urlRegex (tl ?B) = Some u" by auto
    from rx_search_fence [OF this] show False by (simp add: ascii_def)
  qed
  finally show ?thesis .
qed

text \<open>
  Claim C2 fails on the code for an uploaded file whose name gives an extension with a
  space. The handler answers 200 and sends the notification for the absolute URL
  \<^verbatim>\<open>https://example.com/file/big.my photo\<close>; the message holds the literal block with
  exactly that URL; but the pattern of the webhook finds no link in the message, and the
  button is answered with the text for a link that was not found. The name is in lower
  case already, so \<^verbatim>\<open>toLowerCase\<close> leaves it as it is.
\<close>

theorem upload_with_space_link_not_recovered:
  "fst (handleFileUpload (\<lambda>s. s) always_up env0 upload_my_photo world0)
     = \<lparr>status = 200, content = SrcList (ascii ''/file/big.my photo'')\<rparr>
   \<and> map body (calls (snd (handleFileUpload (\<lambda>s. s) always_up env0 upload_my_photo world0))) ! 1
     = SendMessageJson (ascii ''42'') (notification_message my_photo_info)
         [UrlButton [55357, 56599, 32, 30452, 25509, 35775, 38382] (fileUrl my_photo_info),
          CallbackButton [55357, 56523, 32, 22797, 21046, 38142, 25509] (ascii ''copy_link'')]
   \<and> (\<exists>pre post. notification_message my_photo_info
          = pre @ ascii ''```'' @ [10] @ fileUrl my_photo_info @ [10] @ ascii ''```'' @ post)
   \<and> rx_search urlRegex (notification_message my_photo_info) = None
   \<and> map body (calls (snd (handleTelegramWebhook always_up env0 (Inr my_photo_callback) world0)))
     = [AnswerCallbackJson (ascii ''1'') [26080, 27861, 25214, 21040, 38142, 25509, 12290] True]"
proof -
  have send: "sendToTelegram always_up fd ep e1 0 \<lparr>calls = [], sleeps = [], kv_puts = []\<rparr>
        = (Success sent_photo,
           \<lparr>calls = [\<lparr>url = api_url e1 ep, body = Multipart fd\<rparr>], sleeps = [], kv_puts = []\<rparr>)"
    for fd ep e1
    by (subst sendToTelegram_unfold) (simp add: always_up_def Let_def)
  have fid: "getFileId sent_photo = Inr (Some (ascii ''big''))"
    by (simp add: getFileId_def sent_photo_def reduce_def larger_def)
  have ext: "split_pop (fname my_photo) = ascii ''my photo''"
    by (simp add: split_pop_def my_photo_def ascii_def)
  have ne: "ascii ''big'' \<noteq> []" by (simp add: ascii_def)
  have ep: "chooseUpload (ftype my_photo) = (ascii ''photo'', ascii ''sendPhoto'')"
    by (simp add: chooseUpload_def my_photo_def ascii_def)
  have up: "fst (upload_try (\<lambda>s. s) always_up env0 upload_my_photo world0)
              = Inr (ascii ''/file/big.my photo'')
            \<and> map body (calls (snd (upload_try (\<lambda>s. s) always_up env0 upload_my_photo world0))) ! 1
              = SendMessageJson (ascii ''42'') (notification_message my_photo_info)
                 [UrlButton [55357, 56599, 32, 30452, 25509, 35775, 38382] (fileUrl my_photo_info),
                  CallbackButton [55357, 56523, 32, 22797, 21046, 38142, 25509]
                    (ascii ''copy_link'')]"
    by (simp add: upload_try_def upload_my_photo_def ep send fid ext ne Let_def env0_def
        sendFileNotification_def fetch_def always_up_def world0_def notificationChatId_def
        my_photo_info_def my_photo_def split_pop_def ascii_def)
  have a: "fst (handleFileUpload (\<lambda>s. s) always_up env0 upload_my_photo world0)
     = \<lparr>status = 200, content = SrcList (ascii ''/file/big.my photo'')\<rparr>"
    using up by (simp add: handleFileUpload_fst)
  have b: "map body (calls (snd (handleFileUpload (\<lambda>s. s) always_up env0 upload_my_photo world0))) ! 1
     = SendMessageJson (ascii ''42'') (notification_message my_photo_info)
         [UrlButton [55357, 56599, 32, 30452, 25509, 35775, 38382] (fileUrl my_photo_info),
          CallbackButton [55357, 56523, 32, 22797, 21046, 38142, 25509] (ascii ''copy_link'')]"
    using up by (simp add: handleFileUpload_snd)
  have c: "\<exists>pre post. notification_message my_photo_info
          = pre @ ascii ''```'' @ [10] @ fileUrl my_photo_info @ [10] @ ascii ''```'' @ post"
    by (rule notification_message_block)
  have q: "callback_query my_photo_callback
             = Some \<lparr>cq_id = ascii ''1'', cq_data = Some (ascii ''copy_link''),
                     cq_message = Some \<lparr>msg_text = Some (notification_message my_photo_info)\<rparr>\<rparr>"
    by (simp add: my_photo_callback_def)
  have d: "map body (calls (snd (handleTelegramWebhook always_up env0 (Inr my_photo_callback) world0)))
     = [AnswerCallbackJson (ascii ''1'') [26080, 27861, 25214, 21040, 38142, 25509, 12290] True]"
    using webhook_token_with_text [OF q, of "\<lparr>msg_text = Some (notification_message my_photo_info)\<rparr>"
        "notification_message my_photo_info" always_up env0 world0]
    by (simp add: my_photo_no_link world0_def)
  from a b c d my_photo_no_link show ?thesis by (intro conjI)
qed

end
